theory Spec2Isabelle
  imports Main "HOL-Library.Word"
begin

section \<open>The generational cycle collector\<close>

text \<open>
  Embedding of \<^verbatim>\<open>asteria/src/runtime/garbage_collector.cpp\<close> and of the class
  declaration in \<^verbatim>\<open>asteria/runtime/garbage_collector.hpp\<close>.

  A \<^verbatim>\<open>Variable\<close> is identified by its address, a natural number. The classes
  \<^verbatim>\<open>Variable\<close>, \<^verbatim>\<open>Value\<close> and \<^verbatim>\<open>Variable_HashMap\<close> are used by the collector but are
  not part of the sources at hand; they are modelled from the specification, and every
  such definition says so.
\<close>

subsection \<open>Variable\_HashMap\<close>

type_synonym var = nat

text \<open>
  Modelled from the spec: \<^verbatim>\<open>Variable_HashMap\<close> (\<^verbatim>\<open>llds/variable_hashmap.hpp\<close> is missing).
  A map from a key address to a counted pointer to a Variable, kept as an association
  list with unique keys. \<^verbatim>\<open>insert\<close> refuses a key that is present, \<^verbatim>\<open>erase\<close> reports
  whether the key was present, \<^verbatim>\<open>erase_random\<close> removes some element and hands its
  Variable out, \<^verbatim>\<open>merge\<close> inserts every element of another map.
  Which element \<^verbatim>\<open>erase_random\<close> takes is left open: the choice is the
  parameter \<open>pick\<close>, and the theorems below hold for every choice.
\<close>

type_synonym hashmap = "(nat \<times> var) list"

type_synonym picker = "hashmap \<Rightarrow> nat"

definition hm_keys :: "hashmap \<Rightarrow> nat set" where
  "hm_keys m = fst ` set m"

definition hm_insert :: "nat \<Rightarrow> var \<Rightarrow> hashmap \<Rightarrow> bool \<times> hashmap" where
  "hm_insert k v m = (if k \<in> hm_keys m then (False, m) else (True, m @ [(k, v)]))"

definition hm_erase :: "nat \<Rightarrow> hashmap \<Rightarrow> bool \<times> hashmap" where
  "hm_erase k m = (k \<in> hm_keys m, filter (\<lambda>e. fst e \<noteq> k) m)"

definition hm_erase_random :: "picker \<Rightarrow> hashmap \<Rightarrow> (var \<times> hashmap) option" where
  "hm_erase_random pick m =
     (if m = [] then None
      else let i = pick m mod length m
           in Some (snd (m ! i), take i m @ drop (Suc i) m))"

definition hm_merge :: "hashmap \<Rightarrow> hashmap \<Rightarrow> hashmap" where
  "hm_merge dst src = fold (\<lambda>e d. snd (hm_insert (fst e) (snd e) d)) src dst"

definition hm_refs_to :: "hashmap \<Rightarrow> var \<Rightarrow> nat" where
  "hm_refs_to m v = length (filter (\<lambda>e. snd e = v) m)"

subsection \<open>The collector and the heap of Variables\<close>

text \<open>
  \<^verbatim>\<open>gMax = gc_generation_oldest\<close>. Modelled from the spec: the enumeration
  \<^verbatim>\<open>GC_Generation\<close> (\<^verbatim>\<open>fwd.hpp\<close> is missing) has the three values youngest, middle and
  oldest, numbered 0, 1 and 2; the initialiser of \<^verbatim>\<open>m_thres\<close> has three elements.
\<close>

definition gMax :: nat where
  "gMax = 2"

text \<open>
  The members of \<^verbatim>\<open>Garbage_Collector\<close> keep their names. The arrays \<^verbatim>\<open>m_counts\<close>,
  \<^verbatim>\<open>m_thres\<close> and \<^verbatim>\<open>m_tracked\<close> of \<open>gMax + 1\<close> elements are functions of the index;
  the callers only use the indices \<open>0 .. gMax\<close>. The counters are \<^verbatim>\<open>size_t\<close>; they count
  cells that exist at the same time and are taken as natural numbers.

  Modelled from the spec: the heap of Variables (\<^verbatim>\<open>variable.hpp\<close> and \<^verbatim>\<open>value.hpp\<close>
  are missing). \<open>h_refs\<close> lists every reference to a Variable that is held inside the
  value of a live Variable, as (address of the reference, the Variable that owns the
  value, the Variable referred to). \<open>h_init\<close> is the initialized flag, \<open>h_gc_ref\<close> the
  scratch counter of the collector, and \<open>h_ext\<close> the number of references held outside
  of the heap and of the collector (the roots).
\<close>

record gc_state =
  m_recur :: int
  m_pool :: hashmap
  m_counts :: "nat \<Rightarrow> nat"
  m_thres :: "nat \<Rightarrow> nat"
  m_tracked :: "nat \<Rightarrow> hashmap"
  m_staged :: hashmap
  m_temp_1 :: hashmap
  m_temp_2 :: hashmap
  m_unreachable :: hashmap
  m_reachable :: hashmap
  h_refs :: "(nat \<times> var \<times> var) list"
  h_init :: "var \<Rightarrow> bool"
  h_gc_ref :: "var \<Rightarrow> nat"
  h_ext :: "var \<Rightarrow> nat"

text \<open>
  Modelled from the spec: \<^verbatim>\<open>Variable::use_count\<close>, the number of owners of a Variable.
  The owners are the roots, the references inside values, and the entries of the maps of
  the collector. A local counted pointer of a running function is added where the
  function reads the counter.
\<close>

definition use_count :: "gc_state \<Rightarrow> var \<Rightarrow> nat" where
  "use_count s v =
     h_ext s v + length (filter (\<lambda>r. snd (snd r) = v) (h_refs s))
     + hm_refs_to (m_pool s) v
     + (\<Sum>i \<leftarrow> [0 ..< Suc gMax]. hm_refs_to (m_tracked s i) v)
     + hm_refs_to (m_staged s) v + hm_refs_to (m_temp_1 s) v + hm_refs_to (m_temp_2 s) v
     + hm_refs_to (m_unreachable s) v + hm_refs_to (m_reachable s) v"

text \<open>
  Modelled from the spec: the destructor of a Variable. A Variable without owner is
  destroyed and its value is dropped, which releases the references the value held;
  this is repeated until no reference is owned by a destroyed Variable.
\<close>

function reap :: "gc_state \<Rightarrow> gc_state" where
  "reap s =
     (let live = filter (\<lambda>r. use_count s (fst (snd r)) \<noteq> 0) (h_refs s)
      in if length live < length (h_refs s) then reap (s\<lparr>h_refs := live\<rparr>) else s)"
  by pat_completeness auto
termination
  by (relation "measure (\<lambda>s. length (h_refs s))") auto

declare reap.simps [simp del]

text \<open>
  Modelled from the spec: \<^verbatim>\<open>Variable::uninitialize\<close> drops the value of the Variable,
  breaking its outgoing references, and clears the initialized flag.
\<close>

definition uninitialize :: "var \<Rightarrow> gc_state \<Rightarrow> gc_state" where
  "uninitialize v s =
     reap (s\<lparr>h_refs := filter (\<lambda>r. fst (snd r) \<noteq> v) (h_refs s),
              h_init := (h_init s)(v := False)\<rparr>)"

text \<open>
  Modelled from the spec: \<^verbatim>\<open>Value::get_variables(staged, temp)\<close>. Every reference held
  by the value is inserted into \<open>staged\<close> under the address of the reference; where that
  insertion succeeds, the Variable referred to is inserted into \<open>temp\<close> under its own
  address.
\<close>

definition value_refs :: "gc_state \<Rightarrow> var \<Rightarrow> (nat \<times> var) list" where
  "value_refs s v = map (\<lambda>r. (fst r, snd (snd r))) (filter (\<lambda>r. fst (snd r) = v) (h_refs s))"

definition get_variables_step :: "nat \<times> var \<Rightarrow> hashmap \<times> hashmap \<Rightarrow> hashmap \<times> hashmap" where
  "get_variables_step r st =
     (if fst (hm_insert (fst r) (snd r) (fst st))
      then (snd (hm_insert (fst r) (snd r) (fst st)), snd (hm_insert (snd r) (snd r) (snd st)))
      else st)"

definition get_variables :: "gc_state \<Rightarrow> var \<Rightarrow> hashmap \<Rightarrow> hashmap \<Rightarrow> hashmap \<times> hashmap" where
  "get_variables s v staged temp = fold get_variables_step (value_refs s v) (staged, temp)"

subsection \<open>The loops of \<^verbatim>\<open>do_collect_generation\<close>\<close>

text \<open>
  Every \<^verbatim>\<open>while(map.erase_random(nullptr, &var))\<close> loop of the source is a recursive
  function over the state; its body is a definition of its own. The measure of the two
  loops that call \<open>get_variables\<close> is the number of references of the heap that are
  not yet keys of \<open>m_staged\<close>, then the size of the work list.
  \<^verbatim>\<open>ROCKET_ASSERT\<close> is compiled out of release builds and is not modelled.
\<close>

definition unstaged :: "gc_state \<Rightarrow> hashmap \<Rightarrow> nat" where
  "unstaged s staged = length (filter (\<lambda>r. fst r \<notin> hm_keys staged) (h_refs s))"

lemma length_filter_mono:
  assumes "\<And>x. x \<in> set xs \<Longrightarrow> P x \<Longrightarrow> Q x"
  shows "length (filter P xs) \<le> length (filter Q xs)"
  using assms
proof (induction xs)
  case Nil
  then show ?case by simp
next
  case (Cons a xs)
  have IH: "length (filter P xs) \<le> length (filter Q xs)"
    by (rule Cons.IH) (simp add: Cons.prems)
  have "P a \<Longrightarrow> Q a" by (rule Cons.prems) simp_all
  then show ?case using IH by (cases "P a"; cases "Q a") simp_all
qed

lemma length_filter_strict:
  assumes "\<And>x. x \<in> set xs \<Longrightarrow> P x \<Longrightarrow> Q x" and "x \<in> set xs" and "Q x" and "\<not> P x"
  shows "length (filter P xs) < length (filter Q xs)"
  using assms
proof (induction xs)
  case Nil
  then show ?case by simp
next
  case (Cons a xs)
  have le: "length (filter P xs) \<le> length (filter Q xs)"
    by (rule length_filter_mono) (simp add: Cons.prems(1))
  have imp: "P a \<Longrightarrow> Q a" by (rule Cons.prems(1)) simp_all
  show ?case
  proof (cases "a = x")
    case True
    then show ?thesis using le Cons.prems(3,4) by simp
  next
    case False
    then have "x \<in> set xs" using Cons.prems(2) by simp
    then have "length (filter P xs) < length (filter Q xs)"
      by (rule Cons.IH[rotated]) (simp_all add: Cons.prems)
    then show ?thesis using imp by (cases "P a"; cases "Q a") simp_all
  qed
qed

lemma hm_insert_keys: "hm_keys (snd (hm_insert k v m)) = insert k (hm_keys m)"
  by (auto simp: hm_insert_def hm_keys_def)

lemma hm_insert_True: "fst (hm_insert k v m) \<longleftrightarrow> k \<notin> hm_keys m"
  by (auto simp: hm_insert_def)

lemma get_variables_fold_keys:
  "hm_keys (fst st) \<subseteq> hm_keys (fst (fold get_variables_step rs st))"
proof (induction rs arbitrary: st)
  case Nil
  then show ?case by simp
next
  case (Cons r rs)
  have "hm_keys (fst st) \<subseteq> hm_keys (fst (get_variables_step r st))"
    by (auto simp: get_variables_step_def hm_insert_keys)
  then show ?case using Cons.IH[of "get_variables_step r st"] by auto
qed

lemma get_variables_fold_progress:
  "fold get_variables_step rs st = st \<or>
   (\<exists>k \<in> fst ` set rs. k \<in> hm_keys (fst (fold get_variables_step rs st)) \<and> k \<notin> hm_keys (fst st))"
proof (induction rs arbitrary: st)
  case Nil
  then show ?case by simp
next
  case (Cons r rs)
  show ?case
  proof (cases "fst (hm_insert (fst r) (snd r) (fst st))")
    case True
    then have new: "fst r \<notin> hm_keys (fst st)" by (simp add: hm_insert_True)
    have "fst r \<in> hm_keys (fst (get_variables_step r st))"
      using True by (simp add: get_variables_step_def hm_insert_keys)
    then have "fst r \<in> hm_keys (fst (fold get_variables_step rs (get_variables_step r st)))"
      using get_variables_fold_keys by blast
    then show ?thesis using new by auto
  next
    case False
    then have "get_variables_step r st = st" by (simp add: get_variables_step_def)
    then show ?thesis using Cons.IH[of st] by auto
  qed
qed

lemma value_refs_slots: "fst ` set (value_refs s v) \<subseteq> fst ` set (h_refs s)"
  by (force simp: value_refs_def)

lemma get_variables_progress:
  "get_variables s v staged temp = (staged, temp) \<or>
   unstaged s (fst (get_variables s v staged temp)) < unstaged s staged"
proof (cases "get_variables s v staged temp = (staged, temp)")
  case True
  then show ?thesis by simp
next
  case False
  define res where "res = get_variables s v staged temp"
  have res: "res = fold get_variables_step (value_refs s v) (staged, temp)"
    by (simp add: res_def get_variables_def)
  have "res \<noteq> (staged, temp)" using False by (simp add: res_def)
  with get_variables_fold_progress[of "value_refs s v" "(staged, temp)"]
  obtain k where k: "k \<in> fst ` set (value_refs s v)" "k \<in> hm_keys (fst res)" "k \<notin> hm_keys staged"
    unfolding res by fastforce
  from k(1) value_refs_slots[of s v] have "k \<in> fst ` set (h_refs s)" by blast
  then obtain r where r: "r \<in> set (h_refs s)" "fst r = k" by blast
  have sub: "hm_keys staged \<subseteq> hm_keys (fst res)"
    using get_variables_fold_keys[of "(staged, temp)" "value_refs s v"] unfolding res by simp
  have "length (filter (\<lambda>r. fst r \<notin> hm_keys (fst res)) (h_refs s))
        < length (filter (\<lambda>r. fst r \<notin> hm_keys staged) (h_refs s))"
  proof (rule length_filter_strict[where x = r])
    show "r \<in> set (h_refs s)" by (rule r)
    show "fst r \<notin> hm_keys staged" using r k by simp
    show "\<not> fst r \<notin> hm_keys (fst res)" using r k by simp
    show "\<And>x. x \<in> set (h_refs s) \<Longrightarrow> fst x \<notin> hm_keys (fst res) \<Longrightarrow> fst x \<notin> hm_keys staged"
      using sub by blast
  qed
  then show ?thesis by (simp add: res_def unstaged_def)
qed

lemma hm_erase_random_length:
  assumes "hm_erase_random pick m = Some (v, rest)"
  shows "length rest < length m"
proof -
  define i where "i = pick m mod length m"
  have ne: "m \<noteq> []" using assms by (auto simp: hm_erase_random_def split: if_splits)
  then have i: "i < length m" by (simp add: i_def)
  have "rest = take i m @ drop (Suc i) m"
    using assms ne by (simp add: hm_erase_random_def Let_def i_def)
  then have "length rest = i + (length m - Suc i)" using i by simp
  then show ?thesis using i by linarith
qed



text \<open>
  First loop: "Collect all variables from \<^verbatim>\<open>tracked\<close> into \<^verbatim>\<open>m_staged\<close>"; each
  Variable met gets \<^verbatim>\<open>gc_ref = 1\<close>.
\<close>

definition collect_step :: "var \<Rightarrow> hashmap \<Rightarrow> gc_state \<Rightarrow> gc_state" where
  "collect_step var rest s =
     (let s1 = s\<lparr>m_temp_1 := rest, h_gc_ref := (h_gc_ref s)(var := 1)\<rparr>;
          r = get_variables s1 var (m_staged s1) (m_temp_1 s1)
      in s1\<lparr>m_staged := fst r, m_temp_1 := snd r\<rparr>)"

lemma collect_step_measure:
  assumes "length rest < length (m_temp_1 s)"
  shows "unstaged (collect_step var rest s) (m_staged (collect_step var rest s)) < unstaged s (m_staged s)
       \<or> (unstaged (collect_step var rest s) (m_staged (collect_step var rest s)) = unstaged s (m_staged s)
          \<and> length (m_temp_1 (collect_step var rest s)) < length (m_temp_1 s))"
proof -
  define s1 where "s1 = s\<lparr>m_temp_1 := rest, h_gc_ref := (h_gc_ref s)(var := 1)\<rparr>"
  define r where "r = get_variables s1 var (m_staged s) rest"
  have cs: "collect_step var rest s = s1\<lparr>m_staged := fst r, m_temp_1 := snd r\<rparr>"
    by (simp add: collect_step_def Let_def s1_def r_def)
  have U: "unstaged s1 m = unstaged s m" for m by (simp add: unstaged_def s1_def)
  have U2: "unstaged (collect_step var rest s) m = unstaged s m" for m
    by (simp add: unstaged_def cs s1_def)
  from get_variables_progress[of s1 var "m_staged s" rest]
  have "r = (m_staged s, rest) \<or> unstaged s (fst r) < unstaged s (m_staged s)"
    unfolding r_def U by simp
  then show ?thesis
  proof
    assume "r = (m_staged s, rest)"
    then show ?thesis using assms by (simp add: U2) (simp add: cs)
  next
    assume "unstaged s (fst r) < unstaged s (m_staged s)"
    then show ?thesis by (simp add: U2) (simp add: cs)
  qed
qed

function collect_loop :: "picker \<Rightarrow> gc_state \<Rightarrow> gc_state" where
  "collect_loop pick s =
     (case hm_erase_random pick (m_temp_1 s) of
        None \<Rightarrow> s
      | Some (var, rest) \<Rightarrow> collect_loop pick (collect_step var rest s))"
  by pat_completeness auto
termination
proof (relation "measures [\<lambda>(pick, s). unstaged s (m_staged s), \<lambda>(pick, s). length (m_temp_1 s)]", goal_cases)
  case 1
  then show ?case by simp
next
  case (2 pick s x2 var rest)
  then have "length rest < length (m_temp_1 s)"
    using hm_erase_random_length[of pick "m_temp_1 s" var rest] by simp
  from collect_step_measure[OF this, of var] show ?case by auto
qed

text \<open>
  Second loop: "Each key in \<^verbatim>\<open>m_staged\<close> denotes an internal reference, so its
  \<^verbatim>\<open>gc_ref\<close> counter shall be incremented".
\<close>

definition count_step :: "var \<Rightarrow> hashmap \<Rightarrow> gc_state \<Rightarrow> gc_state" where
  "count_step var rest s =
     s\<lparr>m_staged := rest,
       h_gc_ref := (h_gc_ref s)(var := h_gc_ref s var + 1),
       m_temp_1 := snd (hm_insert var var (m_temp_1 s))\<rparr>"

function count_loop :: "picker \<Rightarrow> gc_state \<Rightarrow> gc_state" where
  "count_loop pick s =
     (case hm_erase_random pick (m_staged s) of
        None \<Rightarrow> s
      | Some (var, rest) \<Rightarrow> count_loop pick (count_step var rest s))"
  by pat_completeness auto
termination
proof (relation "measure (\<lambda>(pick, s). length (m_staged s))", goal_cases)
  case 1
  then show ?case by simp
next
  case (2 pick s x2 var rest)
  then show ?case
    using hm_erase_random_length[of pick "m_staged s" var rest] by (simp add: count_step_def)
qed

text \<open>
  Third loop: "Mark all variables that have been collected so far". A Variable whose
  \<^verbatim>\<open>gc_ref\<close> equals \<^verbatim>\<open>use_count() - 1\<close> goes to \<^verbatim>\<open>m_unreachable\<close>; any other
  is reachable, and the inner \<^verbatim>\<open>do ... while(m_temp_2.erase_random(...))\<close> marks what
  it reaches. \<open>mark_step\<close> is the body of the inner loop. When the test is made the
  local pointer \<^verbatim>\<open>var\<close> owns the Variable too, hence the \<open>+ 1\<close>.
\<close>

definition mark_step :: "var \<Rightarrow> gc_state \<Rightarrow> gc_state" where
  "mark_step var s =
     (let s1 = s\<lparr>h_gc_ref := (h_gc_ref s)(var := 0),
                  m_unreachable := snd (hm_erase var (m_unreachable s)),
                  m_reachable := snd (hm_insert var var (m_reachable s))\<rparr>;
          r = get_variables s1 var (m_staged s1) (m_temp_2 s1)
      in s1\<lparr>m_staged := fst r, m_temp_2 := snd r\<rparr>)"

lemma mark_step_measure:
  "unstaged (mark_step var s) (m_staged (mark_step var s)) < unstaged s (m_staged s)
       \<or> (unstaged (mark_step var s) (m_staged (mark_step var s)) = unstaged s (m_staged s)
          \<and> m_temp_2 (mark_step var s) = m_temp_2 s)"
proof -
  define s1 where "s1 = s\<lparr>h_gc_ref := (h_gc_ref s)(var := 0),
                  m_unreachable := snd (hm_erase var (m_unreachable s)),
                  m_reachable := snd (hm_insert var var (m_reachable s))\<rparr>"
  define r where "r = get_variables s1 var (m_staged s) (m_temp_2 s)"
  have cs: "mark_step var s = s1\<lparr>m_staged := fst r, m_temp_2 := snd r\<rparr>"
    by (simp add: mark_step_def Let_def s1_def r_def)
  have U: "unstaged s1 m = unstaged s m" for m by (simp add: unstaged_def s1_def)
  have U2: "unstaged (mark_step var s) m = unstaged s m" for m
    by (simp add: unstaged_def cs s1_def)
  from get_variables_progress[of s1 var "m_staged s" "m_temp_2 s"]
  have "r = (m_staged s, m_temp_2 s) \<or> unstaged s (fst r) < unstaged s (m_staged s)"
    unfolding r_def U by simp
  then show ?thesis
  proof
    assume "r = (m_staged s, m_temp_2 s)"
    then show ?thesis by (simp add: U2) (simp add: cs)
  next
    assume "unstaged s (fst r) < unstaged s (m_staged s)"
    then show ?thesis by (simp add: U2) (simp add: cs)
  qed
qed

function mark_reachable :: "picker \<Rightarrow> var \<Rightarrow> gc_state \<Rightarrow> gc_state" where
  "mark_reachable pick var s =
     (case hm_erase_random pick (m_temp_2 (mark_step var s)) of
        None \<Rightarrow> mark_step var s
      | Some (var', rest) \<Rightarrow> mark_reachable pick var' ((mark_step var s)\<lparr>m_temp_2 := rest\<rparr>))"
  by pat_completeness auto
termination
proof (relation "measures [\<lambda>(pick, var, s). unstaged s (m_staged s), \<lambda>(pick, var, s). length (m_temp_2 s)]", goal_cases)
  case 1
  then show ?case by simp
next
  case (2 pick var s x2 var' rest)
  then have L: "length rest < length (m_temp_2 (mark_step var s))"
    using hm_erase_random_length[of pick "m_temp_2 (mark_step var s)" var' rest] by simp
  have U: "unstaged (t\<lparr>m_temp_2 := rest\<rparr>) m = unstaged t m" for t m
    by (simp add: unstaged_def)
  from mark_step_measure[of var s] L show ?case by (auto simp: U)
qed


declare collect_loop.simps [simp del] count_loop.simps [simp del] mark_reachable.simps [simp del]

lemma mark_reachable_rule:
  assumes "Q var s"
    and "\<And>var s var' rest. Q var s \<Longrightarrow>
           hm_erase_random pick (m_temp_2 (mark_step var s)) = Some (var', rest) \<Longrightarrow>
           Q var' ((mark_step var s)\<lparr>m_temp_2 := rest\<rparr>)"
    and "\<And>var s. Q var s \<Longrightarrow>
           hm_erase_random pick (m_temp_2 (mark_step var s)) = None \<Longrightarrow> R (mark_step var s)"
  shows "R (mark_reachable pick var s)"
  using assms
proof (induction pick var s rule: mark_reachable.induct)
  case (1 pick var s)
  show ?case
  proof (cases "hm_erase_random pick (m_temp_2 (mark_step var s))")
    case None
    then have "mark_reachable pick var s = mark_step var s"
      by (subst mark_reachable.simps) simp
    then show ?thesis using "1.prems"(3)[OF "1.prems"(1) None] by simp
  next
    case (Some x)
    obtain var' rest where x: "x = (var', rest)" by (cases x)
    have eq: "mark_reachable pick var s = mark_reachable pick var' ((mark_step var s)\<lparr>m_temp_2 := rest\<rparr>)"
      by (subst mark_reachable.simps) (simp add: Some x)
    have "Q var' ((mark_step var s)\<lparr>m_temp_2 := rest\<rparr>)"
      using "1.prems"(2)[OF "1.prems"(1)] Some x by simp
    then have "R (mark_reachable pick var' ((mark_step var s)\<lparr>m_temp_2 := rest\<rparr>))"
      by (rule "1.IH"[OF Some x[symmetric]]) (fact "1.prems"(2), fact "1.prems"(3))
    then show ?thesis using eq by simp
  qed
qed

lemma mark_step_temp_1: "m_temp_1 (mark_step var s) = m_temp_1 s"
  by (simp add: mark_step_def Let_def)

lemma mark_reachable_temp_1: "m_temp_1 (mark_reachable pick var s) = m_temp_1 s"
  by (rule mark_reachable_rule[where Q = "\<lambda>v t. m_temp_1 t = m_temp_1 s"])
     (simp_all add: mark_step_temp_1)

definition mark_visit :: "picker \<Rightarrow> var \<Rightarrow> gc_state \<Rightarrow> gc_state" where
  "mark_visit pick var s =
     (if h_gc_ref s var = use_count s var + 1 - 1
      then s\<lparr>m_unreachable := snd (hm_insert var var (m_unreachable s))\<rparr>
      else mark_reachable pick var s)"

function mark_loop :: "picker \<Rightarrow> gc_state \<Rightarrow> gc_state" where
  "mark_loop pick s =
     (case hm_erase_random pick (m_temp_1 s) of
        None \<Rightarrow> s
      | Some (var, rest) \<Rightarrow> mark_loop pick (mark_visit pick var (s\<lparr>m_temp_1 := rest\<rparr>)))"
  by pat_completeness auto
termination
proof (relation "measure (\<lambda>(pick, s). length (m_temp_1 s))", goal_cases)
  case 1
  then show ?case by simp
next
  case (2 pick s x2 var rest)
  then show ?case
    using hm_erase_random_length[of pick "m_temp_1 s" var rest]
    by (simp add: mark_visit_def mark_reachable_temp_1)
qed

text \<open>
  Fourth loop: "Collect all variables from \<^verbatim>\<open>m_unreachable\<close>"; \<open>i\<close> is the index
  \<^verbatim>\<open>gMax-gen\<close> of \<^verbatim>\<open>tracked\<close>.
\<close>

definition reclaim_step :: "nat \<Rightarrow> var \<Rightarrow> hashmap \<Rightarrow> gc_state \<Rightarrow> gc_state" where
  "reclaim_step i var rest s =
     (let s1 = uninitialize var (s\<lparr>m_unreachable := rest\<rparr>);
          erased = fst (hm_erase var (m_tracked s1 i));
          s2 = s1\<lparr>m_tracked := (m_tracked s1)(i := snd (hm_erase var (m_tracked s1 i)))\<rparr>
      in if erased then s2\<lparr>m_pool := snd (hm_insert var var (m_pool s2))\<rparr> else s2)"

lemma reap_frame:
  "m_recur (reap s) = m_recur s \<and> m_pool (reap s) = m_pool s \<and> m_counts (reap s) = m_counts s
   \<and> m_thres (reap s) = m_thres s \<and> m_tracked (reap s) = m_tracked s
   \<and> m_staged (reap s) = m_staged s \<and> m_temp_1 (reap s) = m_temp_1 s
   \<and> m_temp_2 (reap s) = m_temp_2 s \<and> m_unreachable (reap s) = m_unreachable s
   \<and> m_reachable (reap s) = m_reachable s \<and> h_init (reap s) = h_init s
   \<and> h_gc_ref (reap s) = h_gc_ref s \<and> h_ext (reap s) = h_ext s"
proof (induction s rule: reap.induct)
  case (1 s)
  show ?case
  proof (cases "length (filter (\<lambda>r. use_count s (fst (snd r)) \<noteq> 0) (h_refs s)) < length (h_refs s)")
    case True
    then have "reap s = reap (s\<lparr>h_refs := filter (\<lambda>r. use_count s (fst (snd r)) \<noteq> 0) (h_refs s)\<rparr>)"
      by (subst reap.simps) (simp add: Let_def)
    then show ?thesis using "1.IH"[OF refl True] by simp
  next
    case False
    then have "reap s = s" by (subst reap.simps) (simp add: Let_def)
    then show ?thesis by simp
  qed
qed

declare mark_loop.simps [simp del]

function reclaim_loop :: "picker \<Rightarrow> nat \<Rightarrow> nat \<Rightarrow> gc_state \<Rightarrow> nat \<times> gc_state" where
  "reclaim_loop pick i nvars s =
     (case hm_erase_random pick (m_unreachable s) of
        None \<Rightarrow> (nvars, s)
      | Some (var, rest) \<Rightarrow> reclaim_loop pick i (nvars + 1) (reclaim_step i var rest s))"
  by pat_completeness auto
termination
proof (relation "measure (\<lambda>(pick, i, nvars, s). length (m_unreachable s))", goal_cases)
  case 1
  then show ?case by simp
next
  case (2 pick i nvars s x2 var rest)
  then show ?case
    using hm_erase_random_length[of pick "m_unreachable s" var rest]
    by (simp add: reclaim_step_def Let_def uninitialize_def reap_frame)
qed

declare reclaim_loop.simps [simp del]

text \<open>
  Fifth loop: "Push reachable variables to the next generation, if any"; \<open>j\<close> is the
  index \<^verbatim>\<open>gMax-gen-1\<close> of \<^verbatim>\<open>next_opt\<close> and of \<^verbatim>\<open>count_opt\<close>.
\<close>

definition promote_step :: "nat \<Rightarrow> nat \<Rightarrow> var \<Rightarrow> hashmap \<Rightarrow> gc_state \<Rightarrow> gc_state" where
  "promote_step i j var rest s =
     (let s1 = s\<lparr>m_reachable := rest\<rparr>;
          s2 = s1\<lparr>m_tracked := (m_tracked s1)(j := snd (hm_insert var var (m_tracked s1 j)))\<rparr>;
          erased = fst (hm_erase var (m_tracked s2 i));
          s3 = s2\<lparr>m_tracked := (m_tracked s2)(i := snd (hm_erase var (m_tracked s2 i)))\<rparr>
      in reap (if erased
               then s3\<lparr>m_counts := (m_counts s3)(j := m_counts s3 j + 1)\<rparr>
               else s3\<lparr>m_tracked := (m_tracked s3)(j := snd (hm_erase var (m_tracked s3 j)))\<rparr>))"

function promote_loop :: "picker \<Rightarrow> nat \<Rightarrow> nat \<Rightarrow> gc_state \<Rightarrow> gc_state" where
  "promote_loop pick i j s =
     (case hm_erase_random pick (m_reachable s) of
        None \<Rightarrow> s
      | Some (var, rest) \<Rightarrow> promote_loop pick i j (promote_step i j var rest s))"
  by pat_completeness auto
termination
proof (relation "measure (\<lambda>(pick, i, j, s). length (m_reachable s))", goal_cases)
  case 1
  then show ?case by simp
next
  case (2 pick i j s x2 var rest)
  then show ?case
    using hm_erase_random_length[of pick "m_reachable s" var rest]
    by (simp add: promote_step_def Let_def reap_frame)
qed

declare promote_loop.simps [simp del]

subsection \<open>The operations of the collector\<close>

text \<open>
  \<^verbatim>\<open>Sentry\<close> increments \<^verbatim>\<open>m_recur\<close> when it is built and decrements it when it is
  destroyed; it converts to true when the counter was zero before. A request made while
  \<^verbatim>\<open>m_recur\<close> is not zero returns 0 between the two. The function is called with
  \<open>gen \<le> gMax\<close> only; \<^verbatim>\<open>mut_ptr(gMax-gen-1)\<close> is null for \<open>gen = gMax\<close>.
\<close>

definition do_collect_generation :: "picker \<Rightarrow> nat \<Rightarrow> gc_state \<Rightarrow> nat \<times> gc_state" where
  "do_collect_generation pick gen s =
     (let sentry = (m_recur s = 0);
          s0 = s\<lparr>m_recur := m_recur s + 1\<rparr>
      in if \<not> sentry then (0, s0\<lparr>m_recur := m_recur s0 - 1\<rparr>)
         else
           let i = gMax - gen;
               next_opt = (if gen < gMax then Some (gMax - gen - 1) else None);
               s1 = reap (s0\<lparr>m_staged := [], m_temp_1 := [], m_temp_2 := [],
                             m_unreachable := [], m_reachable := []\<rparr>);
               s2 = s1\<lparr>m_temp_1 := hm_merge (m_temp_1 s1) (m_tracked s1 i)\<rparr>;
               s3 = collect_loop pick s2;
               s4 = count_loop pick s3;
               s5 = s4\<lparr>m_temp_1 := hm_merge (m_temp_1 s4) (m_tracked s4 i)\<rparr>;
               s6 = mark_loop pick s5;
               r = reclaim_loop pick i 0 s6;
               s7 = snd r;
               s8 = (case next_opt of None \<Rightarrow> s7 | Some j \<Rightarrow> promote_loop pick i j s7);
               s9 = s8\<lparr>m_counts := (m_counts s8)(i := 0)\<rparr>
           in (fst r, s9\<lparr>m_recur := m_recur s9 - 1\<rparr>))"

text \<open>
  \<^verbatim>\<open>collect_variables(gen_limit)\<close>: the generations \<open>0 .. min gMax gen_limit\<close> are
  collected in this order, then the pool is cleared.
\<close>

definition collect_variables :: "picker \<Rightarrow> nat \<Rightarrow> gc_state \<Rightarrow> nat \<times> gc_state" where
  "collect_variables pick gen_limit s =
     (let r = fold (\<lambda>gen (nvars, t). let c = do_collect_generation pick gen t
                                     in (nvars + fst c, snd c))
                   [0 ..< Suc (min gMax gen_limit)] (0, s)
      in (fst r, reap ((snd r)\<lparr>m_pool := []\<rparr>)))"

text \<open>
  \<^verbatim>\<open>create_variable(gen_hint)\<close>. \<open>auto_collect\<close> is its first loop; beside the state it
  returns the generations on which \<^verbatim>\<open>do_collect_generation\<close> was called, in order.
  \<open>fresh\<close> is the address that \<^verbatim>\<open>make_refcnt<Variable>()\<close> returns when the pool is
  empty; a new Variable is uninitialized. The pointer that is returned to the caller is
  one more owner of the Variable, outside of the collector.
\<close>

definition auto_collect :: "picker \<Rightarrow> gc_state \<Rightarrow> nat list \<times> gc_state" where
  "auto_collect pick s =
     fold (\<lambda>gen (log, t).
             if m_counts t (gMax - gen) \<ge> m_thres t (gMax - gen)
             then (log @ [gen], snd (do_collect_generation pick gen t))
             else (log, t))
          [0 ..< Suc gMax] ([], s)"

definition create_variable :: "picker \<Rightarrow> var \<Rightarrow> nat \<Rightarrow> gc_state \<Rightarrow> var \<times> gc_state" where
  "create_variable pick fresh gen_hint s =
     (let s1 = snd (auto_collect pick s);
          p = (case hm_erase_random pick (m_pool s1) of
                 Some (v, rest) \<Rightarrow> (v, s1\<lparr>m_pool := rest\<rparr>)
               | None \<Rightarrow> (fresh, s1\<lparr>h_init := (h_init s1)(fresh := False),
                                         h_gc_ref := (h_gc_ref s1)(fresh := 0)\<rparr>));
          var = fst p;
          s2 = snd p;
          gen = gMax - gen_hint;
          s3 = s2\<lparr>m_tracked := (m_tracked s2)(gen := snd (hm_insert var var (m_tracked s2 gen))),
                  m_counts := (m_counts s2)(gen := m_counts s2 gen + 1)\<rparr>
      in (var, s3\<lparr>h_ext := (h_ext s3)(var := h_ext s3 var + 1)\<rparr>))"

text \<open>
  The accessors of the header, and a collector as its constructor leaves it,
  \<^verbatim>\<open>m_thres = { 10, 70, 500 }\<close>, over an empty heap.
\<close>

definition get_threshold :: "gc_state \<Rightarrow> nat \<Rightarrow> nat" where
  "get_threshold s gen = m_thres s (gMax - gen)"

definition set_threshold :: "nat \<Rightarrow> nat \<Rightarrow> gc_state \<Rightarrow> gc_state" where
  "set_threshold gen thres s = s\<lparr>m_thres := (m_thres s)(gMax - gen := thres)\<rparr>"

definition count_tracked_variables :: "gc_state \<Rightarrow> nat \<Rightarrow> nat" where
  "count_tracked_variables s gen = length (m_tracked s (gMax - gen))"

definition count_pooled_variables :: "gc_state \<Rightarrow> nat" where
  "count_pooled_variables s = length (m_pool s)"

definition Garbage_Collector :: gc_state where
  "Garbage_Collector =
     \<lparr>m_recur = 0, m_pool = [], m_counts = (\<lambda>_. 0),
      m_thres = (\<lambda>i. if i = 0 then 10 else if i = 1 then 70 else if i = 2 then 500 else 0),
      m_tracked = (\<lambda>_. []), m_staged = [], m_temp_1 = [], m_temp_2 = [],
      m_unreachable = [], m_reachable = [],
      h_refs = [], h_init = (\<lambda>_. False), h_gc_ref = (\<lambda>_. 0), h_ext = (\<lambda>_. 0)\<rparr>"

subsection \<open>States for the examples\<close>

text \<open>
  \<open>pick_first\<close> is the choice of \<^verbatim>\<open>erase_random\<close> that takes the first element.
  \<open>nested_example\<close> is a collector in the middle of a collection (the recursion counter
  is 1) with one Variable in the pool and one Variable that nothing but the collector
  owns, tracked by the youngest generation and counted there.
\<close>

definition pick_first :: picker where
  "pick_first m = 0"

definition nested_example :: gc_state where
  "nested_example =
     Garbage_Collector\<lparr>m_recur := 1, m_pool := [(7, 7)],
                        m_tracked := (\<lambda>i. if i = 2 then [(5, 5)] else []),
                        m_counts := (\<lambda>i. if i = 2 then 1 else 0)\<rparr>"

section \<open>The token stream\<close>

text \<open>
  Embedding of \<^verbatim>\<open>asteria/src/compiler/token_stream.cpp\<close>. The source text is a list of
  bytes (\<open>string\<close>); a pointer into the current line is an index into it. The file name
  that every token carries is constant during a load and is left out.

  The headers \<^verbatim>\<open>token.hpp\<close>, \<^verbatim>\<open>parser_error.hpp\<close> and \<^verbatim>\<open>token_stream.hpp\<close> are not
  part of the sources at hand. The enumerators below are the ones the source names.
\<close>

subsection \<open>Tokens, errors and the line reader\<close>

datatype keyword =
    keyword_abs | keyword_ceil | keyword_floor | keyword_fma | keyword_iceil
  | keyword_ifloor | keyword_iround | keyword_isinf | keyword_isnan | keyword_itrunc
  | keyword_round | keyword_signb | keyword_sqrt | keyword_trunc | keyword_and
  | keyword_assert | keyword_break | keyword_case | keyword_catch | keyword_const
  | keyword_continue | keyword_default | keyword_defer | keyword_do | keyword_each
  | keyword_else | keyword_false | keyword_for | keyword_func | keyword_if
  | keyword_infinity | keyword_lengthof | keyword_nan | keyword_not | keyword_null
  | keyword_or | keyword_return | keyword_switch | keyword_this | keyword_throw
  | keyword_true | keyword_try | keyword_typeof | keyword_unset | keyword_var
  | keyword_while

datatype punctuator =
    punctuator_notl | punctuator_cmp_ne | punctuator_mod | punctuator_mod_eq
  | punctuator_andb | punctuator_andl | punctuator_andl_eq | punctuator_andb_eq
  | punctuator_parenth_op | punctuator_parenth_cl | punctuator_mul | punctuator_mul_eq
  | punctuator_add | punctuator_inc | punctuator_add_eq | punctuator_comma
  | punctuator_sub | punctuator_dec | punctuator_sub_eq | punctuator_dot
  | punctuator_ellipsis | punctuator_div | punctuator_div_eq | punctuator_colon
  | punctuator_semicol | punctuator_cmp_lt | punctuator_sla | punctuator_sll
  | punctuator_sll_eq | punctuator_sla_eq | punctuator_cmp_lte | punctuator_spaceship
  | punctuator_assign | punctuator_cmp_eq | punctuator_cmp_gt | punctuator_cmp_gte
  | punctuator_sra | punctuator_sra_eq | punctuator_srl | punctuator_srl_eq
  | punctuator_quest | punctuator_quest_eq | punctuator_coales | punctuator_coales_eq
  | punctuator_bracket_op | punctuator_bracket_cl | punctuator_xorb | punctuator_xorb_eq
  | punctuator_brace_op | punctuator_orb | punctuator_orb_eq | punctuator_orl
  | punctuator_orl_eq | punctuator_brace_cl | punctuator_notb

text \<open>
  The payload of a token. An integer literal is an \<^verbatim>\<open>int64_t\<close>, kept as a word of 64
  bits. A real literal is a \<^verbatim>\<open>double\<close>; its type is the parameter \<open>'f\<close> (see \<open>fp_ops\<close>).
\<close>

datatype 'f token_payload =
    S_keyword keyword
  | S_punctuator punctuator
  | S_identifier string
  | S_string_literal string
  | S_integer_literal "64 word"
  | S_real_literal 'f

record 'f token =
  t_line :: nat
  t_offset :: nat
  t_length :: nat
  t_payload :: "'f token_payload"

definition is_punctuator :: "'f token \<Rightarrow> bool" where
  "is_punctuator t = (case t_payload t of S_punctuator p \<Rightarrow> True | _ \<Rightarrow> False)"

definition is_keyword :: "'f token \<Rightarrow> bool" where
  "is_keyword t = (case t_payload t of S_keyword k \<Rightarrow> True | _ \<Rightarrow> False)"

datatype code =
    code_success | code_no_data_loaded | code_utf8_sequence_invalid
  | code_null_character_disallowed | code_block_comment_unclosed
  | code_string_literal_unclosed | code_escape_sequence_incomplete
  | code_escape_sequence_unknown | code_escape_sequence_invalid_hex
  | code_escape_utf_code_point_invalid | code_numeric_literal_incomplete
  | code_numeric_literal_suffix_disallowed | code_numeric_literal_exponent_overflow
  | code_integer_literal_exponent_negative | code_integer_literal_overflow
  | code_real_literal_overflow | code_real_literal_underflow
  | code_token_character_unrecognized

datatype parser_error = Parser_Error nat nat nat code

text \<open>
  What leaves a function other than its result: a \<^verbatim>\<open>Parser_Error\<close> that is thrown, a
  runtime error (\<^verbatim>\<open>ASTERIA_THROW_RUNTIME_ERROR\<close>), or \<^verbatim>\<open>ASTERIA_TERMINATE\<close>.
\<close>

datatype exn =
    Thrown_Parser_Error parser_error
  | Thrown_Runtime_Error
  | Terminated

text \<open>
  \<^verbatim>\<open>Line_Reader\<close>. The stream buffer it reads from is held by reference in the source;
  here \<open>advance\<close> takes the rest of the stream and returns what is left of it. A line ends
  at a line feed or at the end of the stream; \<open>advance\<close> fails when the stream is at its
  end. The line number is a \<^verbatim>\<open>uint32_t\<close> and is taken as a natural number.
  The line is held in a string that is followed by a zero byte: reading one position
  behind the end of the line yields \<open>CHR 0x00\<close> (\<open>char_at\<close>).
\<close>

record line_reader =
  m_str :: string
  m_line :: nat
  m_offset :: nat

definition Line_Reader :: line_reader where
  "Line_Reader = \<lparr>m_str = [], m_line = 0, m_offset = 0\<rparr>"

definition advance :: "string \<Rightarrow> line_reader \<Rightarrow> bool \<times> string \<times> line_reader" where
  "advance cbuf rd =
     (if cbuf = [] then (False, cbuf, rd\<lparr>m_str := [], m_offset := 0\<rparr>)
      else (True, drop 1 (dropWhile (\<lambda>c. c \<noteq> CHR 0x0A) cbuf),
            rd\<lparr>m_str := takeWhile (\<lambda>c. c \<noteq> CHR 0x0A) cbuf, m_offset := 0,
               m_line := m_line rd + 1\<rparr>))"

definition data_avail :: "line_reader \<Rightarrow> string" where
  "data_avail rd = drop (m_offset rd) (m_str rd)"

definition size_avail :: "line_reader \<Rightarrow> nat" where
  "size_avail rd = length (m_str rd) - m_offset rd"

definition char_at :: "string \<Rightarrow> nat \<Rightarrow> char" where
  "char_at b i = (if i < length b then b ! i else CHR 0x00)"

definition peek :: "line_reader \<Rightarrow> nat \<Rightarrow> char" where
  "peek rd add = (if add > size_avail rd then CHR 0x00 else char_at (data_avail rd) add)"

definition consume :: "line_reader \<Rightarrow> nat \<Rightarrow> exn + line_reader" where
  "consume rd add =
     (if add > size_avail rd then Inl Thrown_Runtime_Error
      else Inr (rd\<lparr>m_offset := m_offset rd + add\<rparr>))"

definition rewind :: "line_reader \<Rightarrow> nat \<Rightarrow> line_reader" where
  "rewind rd xoffset = rd\<lparr>m_offset := xoffset\<rparr>"

definition do_make_parser_error :: "line_reader \<Rightarrow> nat \<Rightarrow> code \<Rightarrow> exn" where
  "do_make_parser_error rd len c = Thrown_Parser_Error (Parser_Error (m_line rd) (m_offset rd) len c)"

text \<open>\<^verbatim>\<open>Tack\<close>: the position of an open block comment; it converts to true when set.\<close>

record tack =
  tk_line :: nat
  tk_offset :: nat
  tk_length :: nat

definition Tack :: tack where
  "Tack = \<lparr>tk_line = 0, tk_offset = 0, tk_length = 0\<rparr>"

definition tack_bool :: "tack \<Rightarrow> bool" where
  "tack_bool t = (tk_line t \<noteq> 0)"

definition tack_set :: "line_reader \<Rightarrow> nat \<Rightarrow> tack" where
  "tack_set rd xlength = \<lparr>tk_line = m_line rd, tk_offset = m_offset rd, tk_length = xlength\<rparr>"

definition tack_clear :: "tack \<Rightarrow> tack" where
  "tack_clear t = t\<lparr>tk_line := 0\<rparr>"

definition do_push_token ::
  "'f token list \<Rightarrow> line_reader \<Rightarrow> nat \<Rightarrow> 'f token_payload \<Rightarrow> exn + ('f token list \<times> line_reader)" where
  "do_push_token seq rd len xtoken =
     (case consume rd len of
        Inl e \<Rightarrow> Inl e
      | Inr rd' \<Rightarrow>
          Inr (seq @ [\<lparr>t_line = m_line rd, t_offset = m_offset rd, t_length = len,
                        t_payload = xtoken\<rparr>], rd'))"

subsection \<open>Punctuators\<close>

text \<open>
  \<^verbatim>\<open>std::equal_range\<close> with \<^verbatim>\<open>Prefix_Comparator\<close> and a character as the key yields the
  elements whose first character is neither less nor greater than the key, on a table
  that is partitioned by it. The table is searched from the back of that range and the
  first element that is a prefix of the rest of the line is taken.
\<close>

definition char_lt :: "char \<Rightarrow> char \<Rightarrow> bool" where
  "char_lt a b = ((of_char a :: nat) < of_char b)"

definition equal_range :: "(string \<times> 'a) list \<Rightarrow> char \<Rightarrow> (string \<times> 'a) list" where
  "equal_range tbl c =
     takeWhile (\<lambda>e. \<not> char_lt c (char_at (fst e) 0))
       (dropWhile (\<lambda>e. char_lt (char_at (fst e) 0) c) tbl)"

definition s_punct_chars :: string where
  "s_punct_chars = ''!%&()*+,-./:;<=>?[]^{|}~''"

definition s_punctuators :: "(string \<times> punctuator) list" where
  "s_punctuators =
     [(''!'', punctuator_notl), (''!='', punctuator_cmp_ne), (''%'', punctuator_mod),
      (''%='', punctuator_mod_eq), (''&'', punctuator_andb), (''&&'', punctuator_andl),
      (''&&='', punctuator_andl_eq), (''&='', punctuator_andb_eq),
      (''('', punctuator_parenth_op), ('')'', punctuator_parenth_cl),
      (''*'', punctuator_mul), (''*='', punctuator_mul_eq), (''+'', punctuator_add),
      (''++'', punctuator_inc), (''+='', punctuator_add_eq), ('','', punctuator_comma),
      (''-'', punctuator_sub), (''--'', punctuator_dec), (''-='', punctuator_sub_eq),
      (''.'', punctuator_dot), (''...'', punctuator_ellipsis), (''/'', punctuator_div),
      (''/='', punctuator_div_eq), ('':'', punctuator_colon), ('';'', punctuator_semicol),
      (''<'', punctuator_cmp_lt), (''<<'', punctuator_sla), (''<<<'', punctuator_sll),
      (''<<<='', punctuator_sll_eq), (''<<='', punctuator_sla_eq),
      (''<='', punctuator_cmp_lte), (''<=>'', punctuator_spaceship),
      (''='', punctuator_assign), (''=='', punctuator_cmp_eq), (''>'', punctuator_cmp_gt),
      (''>='', punctuator_cmp_gte), (''>>'', punctuator_sra), (''>>='', punctuator_sra_eq),
      (''>>>'', punctuator_srl), (''>>>='', punctuator_srl_eq), (''?'', punctuator_quest),
      (''?='', punctuator_quest_eq), (''??'', punctuator_coales),
      (''??='', punctuator_coales_eq), (''['', punctuator_bracket_op),
      ('']'', punctuator_bracket_cl), (''^'', punctuator_xorb), (''^='', punctuator_xorb_eq),
      (''{'', punctuator_brace_op), (''|'', punctuator_orb), (''|='', punctuator_orb_eq),
      (''||'', punctuator_orl), (''||='', punctuator_orl_eq), (''}'', punctuator_brace_cl),
      (''~'', punctuator_notb)]"

definition do_accept_punctuator ::
  "'f token list \<Rightarrow> line_reader \<Rightarrow> exn + ('f token list \<times> line_reader) option" where
  "do_accept_punctuator seq rd =
     (let bptr = data_avail rd in
      if char_at bptr 0 \<notin> set s_punct_chars then Inr None
      else
        case find (\<lambda>cur. length (fst cur) \<le> size_avail rd
                         \<and> take (length (fst cur)) bptr = fst cur)
                  (rev (equal_range s_punctuators (char_at bptr 0))) of
          Some cur \<Rightarrow>
            (case do_push_token seq rd (length (fst cur)) (S_punctuator (snd cur)) of
               Inl e \<Rightarrow> Inl e
             | Inr r \<Rightarrow> Inr (Some r))
        | None \<Rightarrow> Inl Terminated)"


subsection \<open>String literals\<close>

text \<open>
  \<open>char_find s n c\<close> is \<^verbatim>\<open>std::char_traits<char>::find(s, n, c)\<close>: the index of the first
  \<open>c\<close> among the first \<open>n\<close> characters of \<open>s\<close>.
\<close>

definition s_digits :: string where
  "s_digits = ''00112233445566778899AaBbCcDdEeFf''"

definition char_find :: "string \<Rightarrow> nat \<Rightarrow> char \<Rightarrow> nat option" where
  "char_find s n c =
     (if c \<in> set (take n s) then Some (length (takeWhile (\<lambda>x. x \<noteq> c) (take n s))) else None)"

text \<open>
  Modelled from the spec: \<^verbatim>\<open>utf8_encode\<close> and \<^verbatim>\<open>utf8_decode\<close> (declared in
  \<^verbatim>\<open>utils.hpp\<close>, their bodies are missing). A code point outside \<open>[0, 0x10FFFF]\<close> or in
  the surrogate range is not encoded. \<open>utf8_decode\<close> reads one code point of well-formed
  UTF-8 and yields whether it succeeded, the code point and the number of bytes read.
\<close>

definition utf8_encode :: "nat \<Rightarrow> string option" where
  "utf8_encode cp =
     (if cp < 0x80 then Some [char_of cp]
      else if cp < 0x800 then Some [char_of (0xC0 + cp div 64), char_of (0x80 + cp mod 64)]
      else if 0xD800 \<le> cp \<and> cp < 0xE000 then None
      else if cp < 0x10000
        then Some [char_of (0xE0 + cp div 4096), char_of (0x80 + (cp div 64) mod 64),
                   char_of (0x80 + cp mod 64)]
      else if cp < 0x110000
        then Some [char_of (0xF0 + cp div 262144), char_of (0x80 + (cp div 4096) mod 64),
                   char_of (0x80 + (cp div 64) mod 64), char_of (0x80 + cp mod 64)]
      else None)"

definition utf8_decode :: "string \<Rightarrow> bool \<times> nat \<times> nat" where
  "utf8_decode b =
     (case b of
        [] \<Rightarrow> (False, 0, 0)
      | c # cs \<Rightarrow>
          (let cp = (of_char c :: nat) in
           if cp < 0x80 then (True, cp, 1)
           else if cp < 0xC0 \<or> 0xF8 \<le> cp then (False, cp, 1)
           else
             let u8len = 2 + (if 0xE0 \<le> cp then 1 else 0) + (if 0xF0 \<le> cp then 1 else (0::nat));
                 trail = take (u8len - 1) cs;
                 v = foldl (\<lambda>a t. a * 64 + (of_char t :: nat) mod 64) (cp mod 2 ^ (7 - u8len)) trail
             in if length b < u8len then (False, cp, 1)
                else if list_ex (\<lambda>t. (of_char t :: nat) < 0x80 \<or> 0xC0 \<le> (of_char t :: nat)) trail
                  then (False, v, u8len)
                else if (0xD800 \<le> v \<and> v < 0xE000) \<or> 0x110000 \<le> v then (False, v, u8len)
                else if map_option length (utf8_encode v) \<noteq> Some u8len then (False, v, u8len)
                else (True, v, u8len)))"

text \<open>
  The loop of \<^verbatim>\<open>do_accept_string_literal\<close> over an escapable literal. \<open>tlen\<close> is the
  number of bytes read so far, \<open>val\<close> the decoded value. An error carries the length that
  the source passes to \<^verbatim>\<open>do_make_parser_error\<close>.
\<close>

fun hex_digits :: "string \<Rightarrow> nat \<Rightarrow> nat \<Rightarrow> nat + nat" where
  "hex_digits [] i cp = Inr cp"
| "hex_digits (c # cs) i cp =
     (case char_find s_digits 32 c of
        None \<Rightarrow> Inl (i + 1)
      | Some k \<Rightarrow> hex_digits cs (i + 1) (cp * 16 + k div 2))"

definition simple_escape :: "char \<Rightarrow> char option" where
  "simple_escape next =
     (if next = CHR 0x27 \<or> next = CHR 0x22 \<or> next = CHR 0x5C \<or> next = CHR ''?'' then Some next
      else if next = CHR ''a'' then Some (CHR 0x07)
      else if next = CHR ''b'' then Some (CHR 0x08)
      else if next = CHR ''f'' then Some (CHR 0x0C)
      else if next = CHR ''n'' then Some (CHR 0x0A)
      else if next = CHR ''r'' then Some (CHR 0x0D)
      else if next = CHR ''t'' then Some (CHR 0x09)
      else if next = CHR ''v'' then Some (CHR 0x0B)
      else if next = CHR ''0'' then Some (CHR 0x00)
      else if next = CHR ''Z'' then Some (CHR 0x1A)
      else if next = CHR ''e'' then Some (CHR 0x1B)
      else None)"

function string_loop :: "string \<Rightarrow> char \<Rightarrow> nat \<Rightarrow> string \<Rightarrow> (nat \<times> code) + (nat \<times> string)" where
  "string_loop b head tlen val =
     (let qavail = length b - tlen in
      if qavail = 0 then Inl (length b, code_string_literal_unclosed)
      else if char_at b tlen = head then Inr (tlen + 1, val)
      else if char_at b tlen \<noteq> CHR 0x5C then string_loop b head (tlen + 1) (val @ [char_at b tlen])
      else if qavail < 2 then Inl (length b, code_escape_sequence_incomplete)
      else
        let next = char_at b (tlen + 1) in
        case simple_escape next of
          Some c \<Rightarrow> string_loop b head (tlen + 2) (val @ [c])
        | None \<Rightarrow>
            if next = CHR ''U'' \<or> next = CHR ''u'' \<or> next = CHR ''x'' then
              (let xcnt = (if next = CHR ''U'' then 6 else if next = CHR ''u'' then 4 else 2) in
               if qavail < xcnt + 2 then Inl (length b, code_escape_sequence_incomplete)
               else
                 case hex_digits (take xcnt (drop (tlen + 2) b)) (tlen + 2) 0 of
                   Inl len \<Rightarrow> Inl (len, code_escape_sequence_invalid_hex)
                 | Inr cp \<Rightarrow>
                     if next = CHR ''x'' then string_loop b head (tlen + 2 + xcnt) (val @ [char_of cp])
                     else
                       (case utf8_encode cp of
                          None \<Rightarrow> Inl (tlen + 2 + xcnt, code_escape_utf_code_point_invalid)
                        | Some bytes \<Rightarrow> string_loop b head (tlen + 2 + xcnt) (val @ bytes)))
            else Inl (tlen + 2, code_escape_sequence_unknown))"
  by pat_completeness auto
termination
  by (relation "measure (\<lambda>(b, head, tlen, val). length b - tlen)") auto

declare string_loop.simps [simp del]

definition do_accept_string_literal ::
  "'f token list \<Rightarrow> line_reader \<Rightarrow> char \<Rightarrow> bool \<Rightarrow> exn + ('f token list \<times> line_reader) option" where
  "do_accept_string_literal seq rd head escapable =
     (let bptr = data_avail rd in
      if char_at bptr 0 \<noteq> head then Inr None
      else if escapable then
        (case string_loop bptr head 1 [] of
           Inl (len, c) \<Rightarrow> Inl (do_make_parser_error rd len c)
         | Inr (tlen, val) \<Rightarrow>
             (case do_push_token seq rd tlen (S_string_literal val) of
                Inl e \<Rightarrow> Inl e
              | Inr r \<Rightarrow> Inr (Some r)))
      else
        (case char_find (drop 1 bptr) (size_avail rd - 1) head of
           None \<Rightarrow> Inl (do_make_parser_error rd (size_avail rd) code_string_literal_unclosed)
         | Some k \<Rightarrow>
             (case do_push_token seq rd (k + 2) (S_string_literal (take k (drop 1 bptr))) of
                Inl e \<Rightarrow> Inl e
              | Inr r \<Rightarrow> Inr (Some r))))"

subsection \<open>Identifiers and keywords\<close>

definition s_name_chars :: string where
  "s_name_chars = ''ABCDEFGHIJKLMNOPQRSTUVWXYZabcdefghijklmnopqrstuvwxyz_0123456789''"

definition s_keywords :: "(string \<times> keyword) list" where
  "s_keywords =
     [(''__abs'', keyword_abs), (''__ceil'', keyword_ceil), (''__floor'', keyword_floor),
      (''__fma'', keyword_fma), (''__iceil'', keyword_iceil), (''__ifloor'', keyword_ifloor),
      (''__iround'', keyword_iround), (''__isinf'', keyword_isinf), (''__isnan'', keyword_isnan),
      (''__itrunc'', keyword_itrunc), (''__round'', keyword_round), (''__signb'', keyword_signb),
      (''__sqrt'', keyword_sqrt), (''__trunc'', keyword_trunc), (''and'', keyword_and),
      (''assert'', keyword_assert), (''break'', keyword_break), (''case'', keyword_case),
      (''catch'', keyword_catch), (''const'', keyword_const), (''continue'', keyword_continue),
      (''default'', keyword_default), (''defer'', keyword_defer), (''do'', keyword_do),
      (''each'', keyword_each), (''else'', keyword_else), (''false'', keyword_false),
      (''for'', keyword_for), (''func'', keyword_func), (''if'', keyword_if),
      (''infinity'', keyword_infinity), (''lengthof'', keyword_lengthof), (''nan'', keyword_nan),
      (''not'', keyword_not), (''null'', keyword_null), (''or'', keyword_or),
      (''return'', keyword_return), (''switch'', keyword_switch), (''this'', keyword_this),
      (''throw'', keyword_throw), (''true'', keyword_true), (''try'', keyword_try),
      (''typeof'', keyword_typeof), (''unset'', keyword_unset), (''var'', keyword_var),
      (''while'', keyword_while)]"

definition do_accept_identifier_or_keyword ::
  "'f token list \<Rightarrow> line_reader \<Rightarrow> bool \<Rightarrow> exn + ('f token list \<times> line_reader) option" where
  "do_accept_identifier_or_keyword seq rd keyword_as_identifier =
     (let bptr = data_avail rd in
      if char_find s_name_chars 53 (char_at bptr 0) = None then Inr None
      else
        let tlen = length (takeWhile (\<lambda>ch. char_find s_name_chars 63 ch \<noteq> None) bptr);
            kw = (if keyword_as_identifier then None
                  else find (\<lambda>cur. length (fst cur) = tlen \<and> take tlen bptr = fst cur)
                         (equal_range s_keywords (char_at bptr 0)));
            xtoken = (case kw of Some cur \<Rightarrow> S_keyword (snd cur)
                               | None \<Rightarrow> S_identifier (take tlen bptr))
        in case do_push_token seq rd tlen xtoken of
             Inl e \<Rightarrow> Inl e
           | Inr r \<Rightarrow> Inr (Some r))"

subsection \<open>Numeric literals\<close>

text \<open>
  \<^verbatim>\<open>do_check_mergeability\<close> yields the last token when it is a \<^verbatim>\<open>+\<close> or \<^verbatim>\<open>-\<close> that may be
  merged into the literal that follows, and nothing (a null pointer) otherwise.
\<close>

definition do_check_mergeability :: "'f token list \<Rightarrow> line_reader \<Rightarrow> 'f token option" where
  "do_check_mergeability seq rd =
     (if seq = [] then None
      else
        let qstok = last seq in
        if t_line qstok \<noteq> m_line rd then None
        else if t_offset qstok + t_length qstok \<noteq> m_offset rd then None
        else if \<not> is_punctuator qstok then None
        else if t_payload qstok \<noteq> S_punctuator punctuator_add
                \<and> t_payload qstok \<noteq> S_punctuator punctuator_sub then None
        else if length seq < 2 then Some qstok
        else
          case t_payload (seq ! (length seq - 2)) of
            S_keyword k \<Rightarrow>
              if k \<notin> {keyword_null, keyword_true, keyword_false, keyword_nan,
                        keyword_infinity, keyword_this}
              then Some qstok else None
          | S_punctuator p \<Rightarrow>
              if p \<notin> {punctuator_inc, punctuator_dec, punctuator_parenth_cl,
                        punctuator_bracket_cl, punctuator_brace_cl}
              then Some qstok else None
          | _ \<Rightarrow> None)"


text \<open>
  The floating-point arithmetic that the source performs on \<^verbatim>\<open>long double\<close> and
  \<^verbatim>\<open>double\<close> is a parameter: a record of the operations used, over a type \<open>'f\<close> of
  values. \<open>fp_pow b e\<close> is \<^verbatim>\<open>std::pow(b, e)\<close>, \<open>fp_classify\<close> is \<^verbatim>\<open>std::fpclassify\<close>.
\<close>

datatype fpclass = FP_NAN | FP_INFINITE | FP_ZERO | FP_SUBNORMAL | FP_NORMAL

record 'f fp_ops =
  fp_of_nat :: "nat \<Rightarrow> 'f"
  fp_add :: "'f \<Rightarrow> 'f \<Rightarrow> 'f"
  fp_mul :: "'f \<Rightarrow> 'f \<Rightarrow> 'f"
  fp_div :: "'f \<Rightarrow> 'f \<Rightarrow> 'f"
  fp_to_double :: "'f \<Rightarrow> 'f"
  fp_ldexp :: "'f \<Rightarrow> int \<Rightarrow> 'f"
  fp_pow :: "nat \<Rightarrow> int \<Rightarrow> 'f"
  fp_neg :: "'f \<Rightarrow> 'f"
  fp_classify :: "'f \<Rightarrow> fpclass"

text \<open>\<^verbatim>\<open>Parser_Options\<close>, the three options that \<^verbatim>\<open>load\<close> reads.\<close>

record parser_options =
  opt_escapable_single_quote_string :: bool
  opt_keyword_as_identifier :: bool
  opt_integer_as_real :: bool

text \<open>
  \<open>find_if_not P b start\<close> is \<^verbatim>\<open>std::find_if_not(b + start, eptr, P)\<close>. \<^verbatim>\<open>std::strchr\<close> finds
  the terminating zero of its string too, hence the last disjunct of \<open>is_suffix_char\<close>.
\<close>

definition find_if_not :: "(char \<Rightarrow> bool) \<Rightarrow> string \<Rightarrow> nat \<Rightarrow> nat" where
  "find_if_not P b start = start + length (takeWhile P (drop start b))"

definition is_digit_of :: "nat \<Rightarrow> char \<Rightarrow> bool" where
  "is_digit_of rdigits ch = (ch = CHR 0x60 \<or> ch \<in> set (take rdigits s_digits))"

definition is_suffix_char :: "char \<Rightarrow> bool" where
  "is_suffix_char ch =
     (ch \<in> set ''ABCDEFGHIJKLMNOPQRSTUVWXYZabcdefghijklmnopqrstuvwxyz_'' \<or> ch = CHR 0x00)"

text \<open>
  The three loops that read digits: the exponent (an \<^verbatim>\<open>int32_t\<close>), the integral part of
  an integer literal (a \<^verbatim>\<open>uint64_t\<close>), and the loop that raises it by the exponent. Each
  tests against a bound before it multiplies, so that no value leaves the range of its
  type; the values are natural numbers and integers here.
\<close>

fun exp_loop :: "string \<Rightarrow> int \<Rightarrow> int option" where
  "exp_loop [] exp = Some exp"
| "exp_loop (c # cs) exp =
     (case char_find s_digits 20 c of
        None \<Rightarrow> exp_loop cs exp
      | Some k \<Rightarrow>
          (let dvalue = int (k div 2);
               bound = (0x7FFFFFFF - dvalue) div 10
           in if exp > bound then None else exp_loop cs (exp * 10 + dvalue)))"

fun intg_loop :: "nat \<Rightarrow> string \<Rightarrow> nat \<Rightarrow> nat option" where
  "intg_loop rbase [] v = Some v"
| "intg_loop rbase (c # cs) v =
     (case char_find s_digits (rbase * 2) c of
        None \<Rightarrow> intg_loop rbase cs v
      | Some k \<Rightarrow>
          (let dvalue = k div 2;
               bound = (0x8000000000000000 - dvalue) div rbase
           in if v > bound then None else intg_loop rbase cs (v * rbase + dvalue)))"

function raise_loop :: "nat \<Rightarrow> int \<Rightarrow> int \<Rightarrow> nat \<Rightarrow> nat option" where
  "raise_loop pbase exp i v =
     (if i < exp then
        (let bound = 0x8000000000000000 div pbase
         in if v > bound then None else raise_loop pbase exp (i + 1) (v * pbase))
      else Some v)"
  by pat_completeness auto
termination
  by (relation "measure (\<lambda>(pbase, exp, i, v). nat (exp - i))") auto

declare raise_loop.simps [simp del]

text \<open>
  "Parse the literal as an integer": the block of \<^verbatim>\<open>do_accept_numeric_literal\<close> that
  computes the value of an integer literal from its digits. \<^verbatim>\<open>value = -value\<close> is
  computed in \<^verbatim>\<open>uint64_t\<close> and converted to \<^verbatim>\<open>int64_t\<close>.
\<close>

definition integer_value :: "nat \<Rightarrow> nat \<Rightarrow> int \<Rightarrow> bool \<Rightarrow> string \<Rightarrow> code + 64 word" where
  "integer_value rbase pbase exp rneg digits =
     (if exp < 0 then Inl code_integer_literal_exponent_negative
      else
        case intg_loop rbase digits 0 of
          None \<Rightarrow> Inl code_integer_literal_overflow
        | Some v0 \<Rightarrow>
            (case (if v0 \<noteq> 0 \<and> pbase \<ge> 2 then raise_loop pbase exp 0 v0 else Some v0) of
               None \<Rightarrow> Inl code_integer_literal_overflow
             | Some v \<Rightarrow>
                 if v = 0x8000000000000000 \<and> \<not> rneg then Inl code_integer_literal_overflow
                 else Inr (if rneg then - (word_of_nat v) else word_of_nat v)))"

text \<open>
  "Parse the literal as a floating-point number". The state of the two loops is the
  accumulator and the flag \<^verbatim>\<open>zero\<close>, which the source initialises to \<^verbatim>\<open>true\<close> and
  updates by \<^verbatim>\<open>zero |= dvalue\<close>. The fractional part is read from its last digit.
\<close>

fun real_intg_loop :: "'f fp_ops \<Rightarrow> nat \<Rightarrow> string \<Rightarrow> 'f \<times> bool \<Rightarrow> 'f \<times> bool" where
  "real_intg_loop fp rbase [] st = st"
| "real_intg_loop fp rbase (c # cs) st =
     (case char_find s_digits (rbase * 2) c of
        None \<Rightarrow> real_intg_loop fp rbase cs st
      | Some k \<Rightarrow>
          (let dvalue = k div 2
           in real_intg_loop fp rbase cs
                (fp_add fp (fp_mul fp (fst st) (fp_of_nat fp rbase)) (fp_of_nat fp dvalue),
                 snd st \<or> dvalue \<noteq> 0)))"

fun real_frac_loop :: "'f fp_ops \<Rightarrow> nat \<Rightarrow> string \<Rightarrow> 'f \<times> bool \<Rightarrow> 'f \<times> bool" where
  "real_frac_loop fp rbase [] st = st"
| "real_frac_loop fp rbase (c # cs) st =
     (case char_find s_digits (rbase * 2) c of
        None \<Rightarrow> real_frac_loop fp rbase cs st
      | Some k \<Rightarrow>
          (let dvalue = k div 2
           in real_frac_loop fp rbase cs
                (fp_div fp (fp_add fp (fst st) (fp_of_nat fp dvalue)) (fp_of_nat fp rbase),
                 snd st \<or> dvalue \<noteq> 0)))"

definition real_value ::
  "'f fp_ops \<Rightarrow> nat \<Rightarrow> nat \<Rightarrow> int \<Rightarrow> bool \<Rightarrow> string \<Rightarrow> string \<Rightarrow> code + 'f" where
  "real_value fp rbase pbase exp rneg intg_digits frac_digits =
     (let i = real_intg_loop fp rbase intg_digits (fp_of_nat fp 0, True);
          f = real_frac_loop fp rbase (rev frac_digits) (fp_of_nat fp 0, snd i);
          zero = snd f;
          v0 = fp_to_double fp (fp_add fp (fst i) (fst f));
          v = (if pbase = 2 then fp_ldexp fp v0 exp else fp_mul fp v0 (fp_pow fp pbase exp));
          fpcls = fp_classify fp v
      in if fpcls = FP_INFINITE then Inl code_real_literal_overflow
         else if fpcls = FP_ZERO \<and> \<not> zero then Inl code_real_literal_underflow
         else Inr (if rneg then fp_neg fp v else v))"

text \<open>
  The positions that \<^verbatim>\<open>do_accept_numeric_literal\<close> finds, relative to the start of the
  literal, and the bases. The scan is split into the integral part, the fractional part,
  the exponent and the test for a suffix, in the order of the source.
\<close>

record numeric_positions =
  np_rbase :: nat
  np_bintg :: nat
  np_eintg :: nat
  np_bfrac :: nat
  np_efrac :: nat
  np_pbase :: nat
  np_pneg :: bool
  np_bexp :: nat
  np_eexp :: nat

definition scan_integral :: "string \<Rightarrow> (nat \<times> code) + numeric_positions" where
  "scan_integral bptr =
     (let prefix2 = (char_at bptr 0 = CHR ''0''
                      \<and> (char_at bptr 1 = CHR ''B'' \<or> char_at bptr 1 = CHR ''b''));
          prefix16 = (char_at bptr 0 = CHR ''0''
                      \<and> (char_at bptr 1 = CHR ''X'' \<or> char_at bptr 1 = CHR ''x''));
          bintg = (if prefix2 \<or> prefix16 then 2 else 0);
          rbase = (if prefix2 then 2 else if prefix16 then 16 else 10);
          eintg = find_if_not (is_digit_of (rbase * 2)) bptr bintg
      in if eintg = bintg then Inl (eintg, code_numeric_literal_incomplete)
         else Inr \<lparr>np_rbase = rbase, np_bintg = bintg, np_eintg = eintg,
                   np_bfrac = eintg, np_efrac = eintg, np_pbase = 0, np_pneg = False,
                   np_bexp = eintg, np_eexp = eintg\<rparr>)"

definition scan_fractional :: "string \<Rightarrow> numeric_positions \<Rightarrow> (nat \<times> code) + numeric_positions" where
  "scan_fractional bptr np =
     (if char_at bptr (np_eintg np) = CHR ''.'' then
        (let bfrac = np_eintg np + 1;
             efrac = find_if_not (is_digit_of (np_rbase np * 2)) bptr bfrac
         in if efrac = bfrac then Inl (efrac, code_numeric_literal_incomplete)
            else Inr (np\<lparr>np_bfrac := bfrac, np_efrac := efrac, np_bexp := efrac, np_eexp := efrac\<rparr>))
      else Inr np)"

definition scan_exponent :: "string \<Rightarrow> numeric_positions \<Rightarrow> (nat \<times> code) + numeric_positions" where
  "scan_exponent bptr np =
     (let efrac = np_efrac np;
          pbase = (if char_at bptr efrac = CHR ''E'' \<or> char_at bptr efrac = CHR ''e'' then 10
                   else if char_at bptr efrac = CHR ''P'' \<or> char_at bptr efrac = CHR ''p'' then 2
                   else 0)
      in if pbase = 0 then Inr np
         else
           let bexp0 = efrac + 1;
               pneg = (char_at bptr bexp0 = CHR ''-'');
               bexp = (if char_at bptr bexp0 = CHR ''+'' \<or> char_at bptr bexp0 = CHR ''-''
                       then bexp0 + 1 else bexp0);
               eexp = find_if_not (is_digit_of 20) bptr bexp
           in if eexp = bexp then Inl (eexp, code_numeric_literal_incomplete)
              else Inr (np\<lparr>np_pbase := pbase, np_pneg := pneg, np_bexp := bexp, np_eexp := eexp\<rparr>))"

definition scan_suffix :: "string \<Rightarrow> numeric_positions \<Rightarrow> (nat \<times> code) + numeric_positions" where
  "scan_suffix bptr np =
     (if np_eexp np \<noteq> length bptr \<and> find_if_not is_suffix_char bptr (np_eexp np) \<noteq> np_eexp np
      then Inl (find_if_not is_suffix_char bptr (np_eexp np), code_numeric_literal_suffix_disallowed)
      else Inr np)"

definition scan_numeric_literal :: "string \<Rightarrow> (nat \<times> code) + numeric_positions" where
  "scan_numeric_literal bptr =
     (case scan_integral bptr of
        Inl e \<Rightarrow> Inl e
      | Inr np1 \<Rightarrow>
     (case scan_fractional bptr np1 of
        Inl e \<Rightarrow> Inl e
      | Inr np2 \<Rightarrow>
     (case scan_exponent bptr np2 of
        Inl e \<Rightarrow> Inl e
      | Inr np3 \<Rightarrow> scan_suffix bptr np3)))"

definition numeric_value ::
  "'f fp_ops \<Rightarrow> string \<Rightarrow> numeric_positions \<Rightarrow> bool \<Rightarrow> bool \<Rightarrow> code + 'f token_payload" where
  "numeric_value fp bptr np rneg integer_as_real =
     (case exp_loop (take (np_eexp np - np_bexp np) (drop (np_bexp np) bptr)) 0 of
        None \<Rightarrow> Inl code_numeric_literal_exponent_overflow
      | Some exp0 \<Rightarrow>
          let exp = (if np_pneg np then - exp0 else exp0);
              intg_digits = take (np_eintg np - np_bintg np) (drop (np_bintg np) bptr);
              frac_digits = take (np_efrac np - np_bfrac np) (drop (np_bfrac np) bptr)
          in if \<not> integer_as_real \<and> np_bfrac np = np_efrac np
             then map_sum id S_integer_literal
                    (integer_value (np_rbase np) (np_pbase np) exp rneg intg_digits)
             else map_sum id S_real_literal
                    (real_value fp (np_rbase np) (np_pbase np) exp rneg intg_digits frac_digits))"

definition do_accept_numeric_literal ::
  "'f fp_ops \<Rightarrow> 'f token list \<Rightarrow> line_reader \<Rightarrow> bool \<Rightarrow> exn + ('f token list \<times> line_reader) option" where
  "do_accept_numeric_literal fp seq rd integer_as_real =
     (let bptr = data_avail rd in
      if char_find s_digits 20 (char_at bptr 0) = None then Inr None
      else
        let qstok = do_check_mergeability seq rd;
            rneg = (case qstok of Some t \<Rightarrow> t_payload t = S_punctuator punctuator_sub
                                | None \<Rightarrow> False)
        in case scan_numeric_literal bptr of
             Inl (pos, c) \<Rightarrow> Inl (do_make_parser_error rd pos c)
           | Inr np \<Rightarrow>
               (case numeric_value fp bptr np rneg integer_as_real of
                  Inl c \<Rightarrow> Inl (do_make_parser_error rd (np_eexp np) c)
                | Inr xtoken \<Rightarrow>
                    let rd1 = (case qstok of Some t \<Rightarrow> rewind rd (t_offset t) | None \<Rightarrow> rd);
                        seq1 = (case qstok of Some t \<Rightarrow> butlast seq | None \<Rightarrow> seq);
                        tlen = (m_offset rd + np_eexp np) - m_offset rd1
                    in case do_push_token seq1 rd1 tlen xtoken of
                         Inl e \<Rightarrow> Inl e
                       | Inr r \<Rightarrow> Inr (Some r)))"

subsection \<open>Loading a stream\<close>

text \<open>
  \<open>accept_token\<close> is the chain \<^verbatim>\<open>do_accept_punctuator(...) || ... ||
  do_accept_numeric_literal(...)\<close> of \<^verbatim>\<open>load\<close>.
\<close>

definition accept_token ::
  "'f fp_ops \<Rightarrow> parser_options \<Rightarrow> 'f token list \<Rightarrow> line_reader
     \<Rightarrow> exn + ('f token list \<times> line_reader) option" where
  "accept_token fp options seq rd =
     (case do_accept_punctuator seq rd of
        Inl e \<Rightarrow> Inl e
      | Inr (Some r) \<Rightarrow> Inr (Some r)
      | Inr None \<Rightarrow>
     (case do_accept_string_literal seq rd (CHR 0x22) True of
        Inl e \<Rightarrow> Inl e
      | Inr (Some r) \<Rightarrow> Inr (Some r)
      | Inr None \<Rightarrow>
     (case do_accept_string_literal seq rd (CHR 0x27) (opt_escapable_single_quote_string options) of
        Inl e \<Rightarrow> Inl e
      | Inr (Some r) \<Rightarrow> Inr (Some r)
      | Inr None \<Rightarrow>
     (case do_accept_identifier_or_keyword seq rd (opt_keyword_as_identifier options) of
        Inl e \<Rightarrow> Inl e
      | Inr (Some r) \<Rightarrow> Inr (Some r)
      | Inr None \<Rightarrow> do_accept_numeric_literal fp seq rd (opt_integer_as_real options)))))"

fun search_bcomm_term :: "string \<Rightarrow> nat option" where
  "search_bcomm_term [] = None"
| "search_bcomm_term [c] = None"
| "search_bcomm_term (c # d # cs) =
     (if c = CHR ''*'' \<and> d = CHR ''/'' then Some 0
      else map_option Suc (search_bcomm_term (d # cs)))"

text \<open>Every acceptor that succeeds moves the reader forward; the loop over a line ends.\<close>

lemma consume_Inr:
  "consume rd n = Inr rd' \<Longrightarrow> n \<le> size_avail rd \<and> rd' = rd\<lparr>m_offset := m_offset rd + n\<rparr>"
  by (auto simp: consume_def split: if_splits)

lemma consume_size:
  "consume rd n = Inr rd' \<Longrightarrow> size_avail rd' = size_avail rd - n \<and> n \<le> size_avail rd"
  by (auto simp: consume_def size_avail_def split: if_splits)

lemma do_push_token_size:
  "do_push_token seq rd n x = Inr (seq', rd') \<Longrightarrow>
     size_avail rd' = size_avail rd - n \<and> n \<le> size_avail rd \<and> m_offset rd' = m_offset rd + n
     \<and> m_str rd' = m_str rd"
  by (auto simp: do_push_token_def consume_def size_avail_def split: sum.splits if_splits)

lemma punctuators_nonempty: "\<forall>e \<in> set s_punctuators. fst e \<noteq> []"
  by (simp add: s_punctuators_def)

lemma equal_range_subset: "set (equal_range tbl c) \<subseteq> set tbl"
  unfolding equal_range_def
  by (meson set_takeWhileD set_dropWhileD subsetI)

lemma find_SomeD: "find P xs = Some x \<Longrightarrow> P x \<and> x \<in> set xs"
  by (induction xs) (auto split: if_splits)

lemma do_accept_punctuator_progress:
  assumes "do_accept_punctuator seq rd = Inr (Some (seq', rd'))"
  shows "size_avail rd' < size_avail rd"
proof -
  from assms obtain cur where
    f: "find (\<lambda>cur. length (fst cur) \<le> size_avail rd \<and> take (length (fst cur)) (data_avail rd) = fst cur)
          (rev (equal_range s_punctuators (char_at (data_avail rd) 0))) = Some cur"
    and p: "do_push_token seq rd (length (fst cur)) (S_punctuator (snd cur)) = Inr (seq', rd')"
    by (auto simp: do_accept_punctuator_def Let_def split: if_splits option.splits sum.splits)
  from f have "cur \<in> set (equal_range s_punctuators (char_at (data_avail rd) 0))"
    using find_SomeD by fastforce
  then have "cur \<in> set s_punctuators" using equal_range_subset by blast
  then have "1 \<le> length (fst cur)" using punctuators_nonempty by (cases "fst cur") auto
  then show ?thesis using do_push_token_size[OF p] by linarith
qed

lemma string_loop_progress:
  "string_loop b head tlen val = Inr (tlen', val') \<Longrightarrow> tlen < tlen'"
proof (induction b head tlen val rule: string_loop.induct)
  case (1 b head tlen val)
  from "1.prems" show ?case
    apply (subst (asm) string_loop.simps)
    apply (simp add: Let_def split: if_splits option.splits sum.splits)
    using "1.IH" apply (fastforce simp: Let_def)+
    done
qed



lemma do_accept_string_literal_progress:
  assumes "do_accept_string_literal seq rd head escapable = Inr (Some (seq', rd'))"
  shows "size_avail rd' < size_avail rd"
proof (cases escapable)
  case True
  with assms obtain tlen val where
    l: "string_loop (data_avail rd) head 1 [] = Inr (tlen, val)"
    and p: "do_push_token seq rd tlen (S_string_literal val) = Inr (seq', rd')"
    by (auto simp: do_accept_string_literal_def Let_def split: if_splits sum.splits prod.splits)
  from string_loop_progress[OF l] have "1 < tlen" .
  then show ?thesis using do_push_token_size[OF p] by linarith
next
  case False
  with assms obtain k where
    p: "do_push_token seq rd (k + 2) (S_string_literal (take k (drop 1 (data_avail rd)))) = Inr (seq', rd')"
    by (auto simp: do_accept_string_literal_def Let_def split: if_splits sum.splits option.splits)
  show ?thesis using do_push_token_size[OF p] by linarith
qed

lemma do_accept_identifier_or_keyword_progress:
  assumes "do_accept_identifier_or_keyword seq rd kai = Inr (Some (seq', rd'))"
  shows "size_avail rd' < size_avail rd"
proof -
  define b where "b = data_avail rd"
  define tlen where "tlen = length (takeWhile (\<lambda>ch. char_find s_name_chars 63 ch \<noteq> None) b)"
  from assms have h: "char_find s_name_chars 53 (char_at b 0) \<noteq> None"
    by (auto simp: do_accept_identifier_or_keyword_def Let_def b_def split: if_splits)
  from assms obtain x where p: "do_push_token seq rd tlen x = Inr (seq', rd')"
    by (auto simp: do_accept_identifier_or_keyword_def Let_def b_def tlen_def
             split: if_splits sum.splits)
  have "char_at b 0 \<in> set (take 53 s_name_chars)"
    using h by (auto simp: char_find_def split: if_splits)
  then have in63: "char_find s_name_chars 63 (char_at b 0) \<noteq> None"
    by (auto simp: char_find_def s_name_chars_def)
  have "char_at b 0 \<noteq> CHR 0x00"
    using \<open>char_at b 0 \<in> set (take 53 s_name_chars)\<close> by (auto simp: s_name_chars_def)
  then obtain c cs where b: "b = c # cs" "char_at b 0 = c"
    by (cases b) (auto simp: char_at_def)
  then have "1 \<le> tlen" using in63 by (simp add: tlen_def)
  then show ?thesis using do_push_token_size[OF p] by linarith
qed

lemma do_check_mergeability_offset:
  "do_check_mergeability seq rd = Some t \<Longrightarrow> t_offset t + t_length t = m_offset rd"
  by (auto simp: do_check_mergeability_def Let_def split: if_splits token_payload.splits)

lemma find_if_not_ge: "start \<le> find_if_not P b start"
  by (simp add: find_if_not_def)

lemma scan_integral_pos:
  assumes "scan_integral b = Inr np"
  shows "0 < np_eintg np \<and> np_efrac np = np_eintg np \<and> np_eexp np = np_eintg np"
proof -
  define bintg where "bintg = (if (char_at b 0 = CHR ''0''
                      \<and> (char_at b 1 = CHR ''B'' \<or> char_at b 1 = CHR ''b'')) \<or> (char_at b 0 = CHR ''0''
                      \<and> (char_at b 1 = CHR ''X'' \<or> char_at b 1 = CHR ''x'')) then 2 else (0::nat))"
  define rbase where "rbase = (if (char_at b 0 = CHR ''0''
                      \<and> (char_at b 1 = CHR ''B'' \<or> char_at b 1 = CHR ''b'')) then 2 else if (char_at b 0 = CHR ''0''
                      \<and> (char_at b 1 = CHR ''X'' \<or> char_at b 1 = CHR ''x'')) then 16 else (10::nat))"
  define eintg where "eintg = find_if_not (is_digit_of (rbase * 2)) b bintg"
  have ge: "bintg \<le> eintg" by (simp add: eintg_def find_if_not_ge)
  have u: "scan_integral b = (if eintg = bintg then Inl (eintg, code_numeric_literal_incomplete)
         else Inr \<lparr>np_rbase = rbase, np_bintg = bintg, np_eintg = eintg,
                   np_bfrac = eintg, np_efrac = eintg, np_pbase = 0, np_pneg = False,
                   np_bexp = eintg, np_eexp = eintg\<rparr>)"
    unfolding scan_integral_def Let_def bintg_def rbase_def eintg_def by (rule refl)
  from assms u have ne: "eintg \<noteq> bintg" by (auto split: if_splits)
  with assms u have np: "np = \<lparr>np_rbase = rbase, np_bintg = bintg, np_eintg = eintg,
                   np_bfrac = eintg, np_efrac = eintg, np_pbase = 0, np_pneg = False,
                   np_bexp = eintg, np_eexp = eintg\<rparr>" by simp
  from ge ne have "0 < eintg" by linarith
  then show ?thesis by (simp add: np)
qed

lemma scan_fractional_pos:
  assumes "scan_fractional b np = Inr np'" and "0 < np_efrac np" and "np_efrac np = np_eintg np"
     and "np_eexp np = np_eintg np"
  shows "0 < np_efrac np' \<and> np_eexp np' = np_efrac np'"
proof (cases "char_at b (np_eintg np) = CHR ''.''")
  case True
  define efrac where "efrac = find_if_not (is_digit_of (np_rbase np * 2)) b (np_eintg np + 1)"
  have ge: "np_eintg np + 1 \<le> efrac" by (simp add: efrac_def find_if_not_ge)
  from assms(1) True have "np' = np\<lparr>np_bfrac := np_eintg np + 1, np_efrac := efrac, np_bexp := efrac, np_eexp := efrac\<rparr>"
    by (auto simp: scan_fractional_def Let_def efrac_def split: if_splits)
  then show ?thesis using ge by simp
next
  case False
  with assms(1) have "np' = np" by (simp add: scan_fractional_def)
  then show ?thesis using assms by simp
qed

lemma scan_exponent_pos:
  assumes "scan_exponent b np = Inr np'" and "0 < np_efrac np" and "np_eexp np = np_efrac np"
  shows "0 < np_eexp np'"
proof -
  define pbase where "pbase = (if char_at b (np_efrac np) = CHR ''E'' \<or> char_at b (np_efrac np) = CHR ''e'' then 10
                   else if char_at b (np_efrac np) = CHR ''P'' \<or> char_at b (np_efrac np) = CHR ''p'' then 2
                   else (0::nat))"
  show ?thesis
  proof (cases "pbase = 0")
    case True
    with assms(1) have "np' = np" by (simp add: scan_exponent_def Let_def pbase_def)
    then show ?thesis using assms by simp
  next
    case False
    define bexp where "bexp = (if char_at b (np_efrac np + 1) = CHR ''+'' \<or> char_at b (np_efrac np + 1) = CHR ''-''
                       then np_efrac np + 1 + 1 else np_efrac np + 1)"
    define eexp where "eexp = find_if_not (is_digit_of 20) b bexp"
    have ge: "bexp \<le> eexp" by (simp add: eexp_def find_if_not_ge)
    have "0 < bexp" by (simp add: bexp_def)
    from assms(1) False have "np_eexp np' = eexp"
      by (auto simp: scan_exponent_def Let_def pbase_def bexp_def eexp_def split: if_splits)
    then show ?thesis using ge \<open>0 < bexp\<close> by linarith
  qed
qed

lemma scan_numeric_literal_eexp:
  assumes "scan_numeric_literal b = Inr np"
  shows "0 < np_eexp np"
proof -
  from assms obtain np1 np2 np3 where
    1: "scan_integral b = Inr np1" and 2: "scan_fractional b np1 = Inr np2"
    and 3: "scan_exponent b np2 = Inr np3" and 4: "scan_suffix b np3 = Inr np"
    by (auto simp: scan_numeric_literal_def split: sum.splits)
  note a = scan_integral_pos[OF 1]
  from scan_fractional_pos[OF 2] a have b: "0 < np_efrac np2 \<and> np_eexp np2 = np_efrac np2" by simp
  from scan_exponent_pos[OF 3] b have c: "0 < np_eexp np3" by simp
  from 4 c show ?thesis by (auto simp: scan_suffix_def split: if_splits)
qed

lemma do_accept_numeric_literal_progress:
  assumes "do_accept_numeric_literal fp seq rd iar = Inr (Some (seq', rd'))"
  shows "size_avail rd' < size_avail rd"
proof -
  define qstok where "qstok = do_check_mergeability seq rd"
  define rd1 where "rd1 = (case qstok of Some t \<Rightarrow> rewind rd (t_offset t) | None \<Rightarrow> rd)"
  define seq1 where "seq1 = (case qstok of Some t \<Rightarrow> butlast seq | None \<Rightarrow> seq)"
  from assms obtain np xtoken where
    sc: "scan_numeric_literal (data_avail rd) = Inr np"
    and p: "do_push_token seq1 rd1 ((m_offset rd + np_eexp np) - m_offset rd1) xtoken = Inr (seq', rd')"
    unfolding do_accept_numeric_literal_def Let_def qstok_def[symmetric] rd1_def[symmetric] seq1_def[symmetric]
    by (auto split: if_splits sum.splits prod.splits)
  have le: "m_offset rd1 \<le> m_offset rd" and str: "m_str rd1 = m_str rd"
    using do_check_mergeability_offset[of seq rd]
    by (auto simp: rd1_def qstok_def rewind_def split: option.splits)
  from do_push_token_size[OF p] have
    n: "(m_offset rd + np_eexp np) - m_offset rd1 \<le> size_avail rd1"
    and o: "m_offset rd' = m_offset rd1 + ((m_offset rd + np_eexp np) - m_offset rd1)"
    and s: "m_str rd' = m_str rd1" by simp_all
  from o le have o': "m_offset rd' = m_offset rd + np_eexp np" by linarith
  from n le scan_numeric_literal_eexp[OF sc] have "m_offset rd + np_eexp np \<le> length (m_str rd)"
    unfolding size_avail_def str by linarith
  then show ?thesis using scan_numeric_literal_eexp[OF sc] o' s str
    by (simp add: size_avail_def)
qed

lemma accept_token_progress:
  assumes "accept_token fp options seq rd = Inr (Some (seq', rd'))"
  shows "size_avail rd' < size_avail rd"
  using assms
  by (auto simp: accept_token_def split: sum.splits option.splits
           dest: do_accept_punctuator_progress do_accept_string_literal_progress
                 do_accept_identifier_or_keyword_progress do_accept_numeric_literal_progress)


text \<open>
  The loop "Break this line down into tokens" of \<^verbatim>\<open>load\<close>, with the state of an open
  block comment.
\<close>

function tokenize_line ::
  "'f fp_ops \<Rightarrow> parser_options \<Rightarrow> 'f token list \<Rightarrow> tack \<Rightarrow> line_reader
     \<Rightarrow> exn + ('f token list \<times> tack \<times> line_reader)" where
  "tokenize_line fp options seq bcomm rd =
     (if size_avail rd = 0 then Inr (seq, bcomm, rd)
      else if tack_bool bcomm then
        (case search_bcomm_term (data_avail rd) of
           None \<Rightarrow>
             (case consume rd (size_avail rd) of
                Inl e \<Rightarrow> Inl e
              | Inr rd' \<Rightarrow> Inr (seq, bcomm, rd'))
         | Some k \<Rightarrow>
             (case consume rd (k + 2) of
                Inl e \<Rightarrow> Inl e
              | Inr rd' \<Rightarrow> tokenize_line fp options seq (tack_clear bcomm) rd'))
      else if peek rd 0 \<in> set [CHR '' '', CHR 0x09, CHR 0x0B, CHR 0x0C, CHR 0x0D, CHR 0x0A] then
        (case consume rd 1 of
           Inl e \<Rightarrow> Inl e
         | Inr rd' \<Rightarrow> tokenize_line fp options seq bcomm rd')
      else if peek rd 0 = CHR ''/'' \<and> peek rd 1 = CHR ''/'' then
        (case consume rd (size_avail rd) of
           Inl e \<Rightarrow> Inl e
         | Inr rd' \<Rightarrow> Inr (seq, bcomm, rd'))
      else if peek rd 0 = CHR ''/'' \<and> peek rd 1 = CHR ''*'' then
        (case consume rd 2 of
           Inl e \<Rightarrow> Inl e
         | Inr rd' \<Rightarrow> tokenize_line fp options seq (tack_set rd 2) rd')
      else
        (case accept_token fp options seq rd of
           Inl e \<Rightarrow> Inl e
         | Inr None \<Rightarrow> Inl (do_make_parser_error rd 1 code_token_character_unrecognized)
         | Inr (Some (seq', rd')) \<Rightarrow> tokenize_line fp options seq' bcomm rd'))"
  by pat_completeness auto
termination
proof (relation "measure (\<lambda>(fp, options, seq, bcomm, rd). size_avail rd)", goal_cases)
  case 1
  then show ?case by simp
next
  case (2 fp options seq bcomm rd k rd')
  then show ?case using consume_size[of rd "k + 2" rd'] by simp
next
  case (3 fp options seq bcomm rd rd')
  then show ?case using consume_size[of rd 1 rd'] by simp
next
  case (4 fp options seq bcomm rd rd')
  then show ?case using consume_size[of rd 2 rd'] by simp
next
  case (5 fp options seq bcomm rd x x2 seq' rd')
  then show ?case using accept_token_progress[of fp options seq rd seq' rd'] by simp
qed

declare tokenize_line.simps [simp del]

text \<open>The loop "Ensure this line is a valid UTF-8 string".\<close>

lemma utf8_decode_consumed: "fst (utf8_decode b) \<Longrightarrow> 1 \<le> snd (snd (utf8_decode b))"
  by (auto simp: utf8_decode_def Let_def split: list.splits if_splits)

function utf8_check :: "line_reader \<Rightarrow> exn + line_reader" where
  "utf8_check rd =
     (if size_avail rd = 0 then Inr rd
      else
        let d = utf8_decode (data_avail rd) in
        if \<not> fst d then Inl (do_make_parser_error rd (snd (snd d)) code_utf8_sequence_invalid)
        else if fst (snd d) = 0
          then Inl (do_make_parser_error rd (snd (snd d)) code_null_character_disallowed)
        else
          (case consume rd (snd (snd d)) of
             Inl e \<Rightarrow> Inl e
           | Inr rd' \<Rightarrow> utf8_check rd'))"
  by pat_completeness auto
termination
proof (relation "measure size_avail", goal_cases)
  case 1
  then show ?case by simp
next
  case (2 rd d rd')
  then show ?case
    using consume_size[of rd "snd (snd d)" rd'] utf8_decode_consumed[of "data_avail rd"] by simp
qed

declare utf8_check.simps [simp del]

text \<open>
  The body of the loop over the lines: a first line that starts with \<^verbatim>\<open>#!\<close> is skipped
  (\<^verbatim>\<open>continue\<close>) before anything else is done with it.
\<close>

definition is_shebang :: "line_reader \<Rightarrow> bool" where
  "is_shebang rd = (m_line rd = 1 \<and> size_avail rd \<ge> 2 \<and> take 2 (data_avail rd) = ''#!'')"

definition process_line ::
  "'f fp_ops \<Rightarrow> parser_options \<Rightarrow> 'f token list \<Rightarrow> tack \<Rightarrow> line_reader
     \<Rightarrow> exn + ('f token list \<times> tack \<times> line_reader)" where
  "process_line fp options seq bcomm rd =
     (if is_shebang rd then Inr (seq, bcomm, rd)
      else
        case utf8_check rd of
          Inl e \<Rightarrow> Inl e
        | Inr rd1 \<Rightarrow>
            (case tokenize_line fp options seq bcomm (rewind rd1 0) of
               Inl e \<Rightarrow> Inl e
             | Inr (seq', bcomm', rd2) \<Rightarrow> Inr (seq', bcomm', rewind rd2 0)))"

lemma advance_length:
  assumes "advance cbuf rd = (True, cbuf', rd')"
  shows "length cbuf' < length cbuf"
proof -
  from assms have ne: "cbuf \<noteq> []" and c: "cbuf' = drop 1 (dropWhile (\<lambda>c. c \<noteq> CHR 0x0A) cbuf)"
    by (auto simp: advance_def split: if_splits)
  have "length (dropWhile (\<lambda>c. c \<noteq> CHR 0x0A) cbuf) \<le> length cbuf"
    by (rule length_dropWhile_le)
  moreover have "0 < length cbuf" using ne by simp
  ultimately show ?thesis unfolding c length_drop by linarith
qed

function read_lines ::
  "'f fp_ops \<Rightarrow> parser_options \<Rightarrow> 'f token list \<Rightarrow> tack \<Rightarrow> line_reader \<Rightarrow> string
     \<Rightarrow> exn + ('f token list \<times> tack)" where
  "read_lines fp options seq bcomm rd cbuf =
     (case advance cbuf rd of
        (False, cbuf', rd') \<Rightarrow> Inr (seq, bcomm)
      | (True, cbuf', rd') \<Rightarrow>
          (case process_line fp options seq bcomm rd' of
             Inl e \<Rightarrow> Inl e
           | Inr (seq', bcomm', rd'') \<Rightarrow> read_lines fp options seq' bcomm' rd'' cbuf'))"
  by pat_completeness auto
termination
proof (relation "measure (\<lambda>(fp, options, seq, bcomm, rd, cbuf). length cbuf)", goal_cases)
  case 1
  then show ?case by simp
next
  case (2 fp options seq bcomm rd cbuf x y cbuf' rd' z seq' w bcomm' rd'')
  then show ?case using advance_length[of cbuf rd cbuf' rd'] by simp
qed

declare read_lines.simps [simp del]

text \<open>
  \<^verbatim>\<open>Token_Stream\<close>. Modelled from the spec: the member \<^verbatim>\<open>m_stor\<close> is a variant of
  nothing, a \<^verbatim>\<open>Parser_Error\<close> or the tokens, and \<^verbatim>\<open>state()\<close> tells which
  (\<^verbatim>\<open>token_stream.hpp\<close> is missing). \<open>load\<close> yields the value it returns and the new
  \<^verbatim>\<open>m_stor\<close>; an exception other than a \<^verbatim>\<open>Parser_Error\<close> leaves \<open>load\<close>.
\<close>

datatype 'f storage = Stor_null | Stor_error parser_error | Stor_tokens "'f token list"

definition load :: "'f fp_ops \<Rightarrow> string \<Rightarrow> parser_options \<Rightarrow> exn + (bool \<times> 'f storage)" where
  "load fp cbuf options =
     (case read_lines fp options [] Tack Line_Reader cbuf of
        Inl (Thrown_Parser_Error err) \<Rightarrow> Inr (False, Stor_error err)
      | Inl e \<Rightarrow> Inl e
      | Inr (seq, bcomm) \<Rightarrow>
          if tack_bool bcomm
          then Inr (False, Stor_error (Parser_Error (tk_line bcomm) (tk_offset bcomm) (tk_length bcomm)
                                          code_block_comment_unclosed))
          else Inr (True, Stor_tokens (rev seq)))"







subsection \<open>Definitions for the examples and the statements\<close>

text \<open>
  An instance of the floating-point operations, used where an example has to be a closed
  term: exact arithmetic on fractions (numerator, positive denominator) cut to the
  range of a \<^verbatim>\<open>double\<close>. A value whose magnitude is below \<^verbatim>\<open>2^-1075\<close> becomes zero
  and one of magnitude \<^verbatim>\<open>2^1024\<close> or more becomes infinite. It does not round the
  significand. The theorems about the lexer hold for every instance.
\<close>

datatype range_float = Finite int int | Infinity

definition range_round :: "int \<Rightarrow> int \<Rightarrow> range_float" where
  "range_round n d =
     (if 2 ^ 1024 * d \<le> \<bar>n\<bar> then Infinity
      else if \<bar>n\<bar> * 2 ^ 1075 < d then Finite 0 1
      else Finite n d)"

definition range_lift :: "(int \<Rightarrow> int \<Rightarrow> int \<Rightarrow> int \<Rightarrow> range_float) \<Rightarrow> range_float \<Rightarrow> range_float \<Rightarrow> range_float" where
  "range_lift f a b =
     (case a of
        Infinity \<Rightarrow> Infinity
      | Finite n d \<Rightarrow> (case b of Infinity \<Rightarrow> Infinity | Finite m e \<Rightarrow> f n d m e))"

definition range_scale :: "nat \<Rightarrow> int \<Rightarrow> range_float" where
  "range_scale b e =
     (if 0 \<le> e then range_round (int b ^ nat e) 1 else range_round 1 (int b ^ nat (- e)))"

definition range_fp :: "range_float fp_ops" where
  "range_fp =
     \<lparr>fp_of_nat = (\<lambda>n. Finite (int n) 1),
      fp_add = range_lift (\<lambda>n d m e. range_round (n * e + m * d) (d * e)),
      fp_mul = range_lift (\<lambda>n d m e. range_round (n * m) (d * e)),
      fp_div = range_lift (\<lambda>n d m e. range_round (n * e) (d * m)),
      fp_to_double = (\<lambda>a. a),
      fp_ldexp = (\<lambda>a e. range_lift (\<lambda>n d m e. range_round (n * m) (d * e)) a (range_scale 2 e)),
      fp_pow = range_scale,
      fp_neg = (\<lambda>a. case a of Infinity \<Rightarrow> Infinity | Finite n d \<Rightarrow> Finite (- n) d),
      fp_classify = (\<lambda>a. case a of Infinity \<Rightarrow> FP_INFINITE
                                   | Finite n d \<Rightarrow> if n = 0 then FP_ZERO else FP_NORMAL)\<rparr>"

text \<open>The options with every flag off, and the rules to evaluate the lexer on an input.\<close>

definition all_off :: parser_options where
  "all_off = \<lparr>opt_escapable_single_quote_string = False, opt_keyword_as_identifier = False,
               opt_integer_as_real = False\<rparr>"

lemmas lex_eval = load_def read_lines.simps advance_def process_line_def is_shebang_def
  utf8_check.simps utf8_decode_def tokenize_line.simps accept_token_def
  do_accept_punctuator_def do_accept_string_literal_def do_accept_identifier_or_keyword_def
  do_accept_numeric_literal_def do_push_token_def consume_def rewind_def peek_def
  size_avail_def data_avail_def char_at_def Line_Reader_def Tack_def tack_bool_def tack_set_def
  tack_clear_def equal_range_def char_lt_def s_punct_chars_def s_punctuators_def
  do_make_parser_error_def Let_def all_off_def char_find_def s_digits_def
  s_name_chars_def s_keywords_def do_check_mergeability_def is_punctuator_def
  scan_numeric_literal_def scan_integral_def scan_fractional_def scan_exponent_def scan_suffix_def
  find_if_not_def is_digit_of_def is_suffix_char_def numeric_value_def integer_value_def

lemmas fp_eval = real_value_def range_fp_def range_lift_def range_round_def range_scale_def











section \<open>Evaluation of the collector\<close>

text \<open>
  \<open>do_collect_generation_steps\<close> runs a collection phase by phase; over a heap without
  references \<open>reap\<close> and \<open>get_variables\<close> do nothing.
\<close>

lemma upt_0_3: "[0..<3] = [0, 1, 2]"
  by (simp add: upt_rec)

lemma reap_no_refs: "h_refs s = [] \<Longrightarrow> reap s = s"
  by (subst reap.simps) simp

lemma get_variables_no_refs: "h_refs s = [] \<Longrightarrow> get_variables s v staged temp = (staged, temp)"
  by (simp add: get_variables_def value_refs_def)

lemmas gc_eval = upt_0_3 gMax_def pick_first_def
  Garbage_Collector_def use_count_def hm_refs_to_def hm_merge_def hm_insert_def
  hm_erase_def hm_erase_random_def hm_keys_def collect_step_def
  count_step_def mark_visit_def mark_step_def
  reclaim_step_def promote_step_def uninitialize_def
  reap_no_refs get_variables_no_refs Let_def

lemma do_collect_generation_steps:
  assumes "m_recur s = 0"
    and "reap (s\<lparr>m_recur := 1, m_staged := [], m_temp_1 := [], m_temp_2 := [],
                 m_unreachable := [], m_reachable := []\<rparr>) = s1"
    and "collect_loop pick (s1\<lparr>m_temp_1 := hm_merge (m_temp_1 s1) (m_tracked s1 (gMax - gen))\<rparr>) = s3"
    and "count_loop pick s3 = s4"
    and "mark_loop pick (s4\<lparr>m_temp_1 := hm_merge (m_temp_1 s4) (m_tracked s4 (gMax - gen))\<rparr>) = s6"
    and "reclaim_loop pick (gMax - gen) 0 s6 = (n, s7)"
    and "(if gen < gMax then promote_loop pick (gMax - gen) (gMax - gen - 1) s7 else s7) = s8"
  shows "do_collect_generation pick gen s
         = (n, s8\<lparr>m_counts := (m_counts s8)(gMax - gen := 0), m_recur := m_recur s8 - 1\<rparr>)"
proof -
  have "do_collect_generation pick gen s =
     (let i = gMax - gen;
               next_opt = (if gen < gMax then Some (gMax - gen - 1) else None);
               s1 = reap (s\<lparr>m_recur := 1, m_staged := [], m_temp_1 := [], m_temp_2 := [],
                             m_unreachable := [], m_reachable := []\<rparr>);
               s2 = s1\<lparr>m_temp_1 := hm_merge (m_temp_1 s1) (m_tracked s1 i)\<rparr>;
               s3 = collect_loop pick s2;
               s4 = count_loop pick s3;
               s5 = s4\<lparr>m_temp_1 := hm_merge (m_temp_1 s4) (m_tracked s4 i)\<rparr>;
               s6 = mark_loop pick s5;
               r = reclaim_loop pick i 0 s6;
               s7 = snd r;
               s8 = (case next_opt of None \<Rightarrow> s7 | Some j \<Rightarrow> promote_loop pick i j s7);
               s9 = s8\<lparr>m_counts := (m_counts s8)(i := 0)\<rparr>
           in (fst r, s9\<lparr>m_recur := m_recur s9 - 1\<rparr>))"
    unfolding do_collect_generation_def by (simp add: assms(1))
  also have "\<dots> = (n, s8\<lparr>m_counts := (m_counts s8)(gMax - gen := 0), m_recur := m_recur s8 - 1\<rparr>)"
    unfolding Let_def assms(2) assms(3) assms(4) assms(5) assms(6) snd_conv fst_conv
    using assms(7) by (cases "gen < gMax") simp_all
  finally show ?thesis .
qed

lemma unguarded_collection_example:
  "do_collect_generation pick_first 0 (nested_example\<lparr>m_recur := 0\<rparr>)
   = (1, nested_example\<lparr>m_recur := 0, m_pool := [(7, 7), (5, 5)], m_tracked := (\<lambda>i. []),
                         m_counts := (\<lambda>i. 0), h_gc_ref := (\<lambda>v. if v = 5 then 1 else 0)\<rparr>)"
proof -
  define s3 where "s3 = nested_example\<lparr>h_gc_ref := (\<lambda>v. if v = 5 then 1 else 0)\<rparr>"
  define s6 where "s6 = s3\<lparr>m_unreachable := [(5, 5)]\<rparr>"
  define s7 where "s7 = s3\<lparr>m_pool := [(7, 7), (5, 5)], m_tracked := (\<lambda>i. [])\<rparr>"
  have 1: "m_recur (nested_example\<lparr>m_recur := 0\<rparr>) = 0" by simp
  have 2: "reap (nested_example\<lparr>m_recur := 0\<rparr>\<lparr>m_recur := 1, m_staged := [], m_temp_1 := [],
              m_temp_2 := [], m_unreachable := [], m_reachable := []\<rparr>) = nested_example"
    by (simp add: nested_example_def gc_eval)
  have 3: "collect_loop pick_first (nested_example\<lparr>m_temp_1 :=
              hm_merge (m_temp_1 nested_example) (m_tracked nested_example (gMax - 0))\<rparr>) = s3"
    apply (subst collect_loop.simps)
    apply (simp add: nested_example_def gc_eval)
    apply (subst collect_loop.simps)
    apply (simp add: s3_def nested_example_def gc_eval fun_eq_iff)
    done
  have 4: "count_loop pick_first s3 = s3"
    apply (subst count_loop.simps)
    apply (simp add: s3_def nested_example_def gc_eval)
    done
  have 5: "mark_loop pick_first (s3\<lparr>m_temp_1 :=
              hm_merge (m_temp_1 s3) (m_tracked s3 (gMax - 0))\<rparr>) = s6"
    apply (subst mark_loop.simps)
    apply (simp add: s3_def nested_example_def gc_eval)
    apply (subst mark_loop.simps)
    apply (simp add: s6_def s3_def nested_example_def gc_eval fun_eq_iff)
    done
  have 6: "reclaim_loop pick_first (gMax - 0) 0 s6 = (1, s7)"
    apply (subst reclaim_loop.simps)
    apply (simp add: s6_def s3_def nested_example_def gc_eval)
    apply (subst reclaim_loop.simps)
    apply (simp add: s7_def s6_def s3_def nested_example_def gc_eval fun_eq_iff)
    done
  have 7: "(if 0 < gMax then promote_loop pick_first (gMax - 0) (gMax - 0 - 1) s7 else s7) = s7"
    apply (subst promote_loop.simps)
    apply (simp add: s7_def s3_def nested_example_def gc_eval)
    done
  show ?thesis
    unfolding do_collect_generation_steps[OF 1 2 3 4 5 6 7]
    by (simp add: s7_def s3_def nested_example_def gc_eval fun_eq_iff)
qed


lemma nested_do_collect_generation:
  "m_recur s > 0 \<Longrightarrow> do_collect_generation pick gen s = (0, s)"
  by (simp add: do_collect_generation_def Let_def)

lemma nested_collect_variables:
  assumes "m_recur s > 0"
  shows "collect_variables pick gen_limit s = (0, reap (s\<lparr>m_pool := []\<rparr>))"
proof -
  have "fold (\<lambda>gen (nvars, t). let c = do_collect_generation pick gen t
                                  in (nvars + fst c, snd c)) gens (n, s) = (n, s)" for gens n
    by (induction gens) (simp_all add: nested_do_collect_generation[OF assms])
  then show ?thesis
    by (simp add: collect_variables_def Let_def del: upt_Suc)
qed

section \<open>Properties of the collector\<close>

text \<open>
  C8, as amended. While a collection of the same collector is in progress (the recursion
  counter is positive), \<^verbatim>\<open>do_collect_generation\<close> returns 0 at once and leaves the whole
  state as it was. A nested \<^verbatim>\<open>collect_variables\<close> returns 0 and leaves the tracked sets,
  the generation counters, the thresholds and the recursion counter as they were, but it
  is not without effect: it empties the pool.
\<close>

theorem nested_collection_guard:
  "m_recur s > 0 \<Longrightarrow>
     do_collect_generation pick gen s = (0, s)
     \<and> collect_variables pick gen_limit s = (0, reap (s\<lparr>m_pool := []\<rparr>))
     \<and> m_tracked (snd (collect_variables pick gen_limit s)) = m_tracked s
     \<and> m_counts (snd (collect_variables pick gen_limit s)) = m_counts s
     \<and> m_thres (snd (collect_variables pick gen_limit s)) = m_thres s
     \<and> m_recur (snd (collect_variables pick gen_limit s)) = m_recur s
     \<and> m_pool (snd (collect_variables pick gen_limit s)) = []"
  by (simp add: nested_do_collect_generation nested_collect_variables reap_frame)

theorem nested_collection_guard_witness:
  "m_recur nested_example > 0
   \<and> do_collect_generation pick_first 0 nested_example = (0, nested_example)
   \<and> fst (collect_variables pick_first 2 nested_example) = 0
   \<and> count_tracked_variables (snd (collect_variables pick_first 2 nested_example)) 0 = 1
   \<and> m_counts (snd (collect_variables pick_first 2 nested_example)) 2 = 1
   \<and> fst (do_collect_generation pick_first 0 (nested_example\<lparr>m_recur := 0\<rparr>)) = 1
   \<and> count_tracked_variables
        (snd (do_collect_generation pick_first 0 (nested_example\<lparr>m_recur := 0\<rparr>))) 0 = 0"
proof -
  have pos: "m_recur nested_example > 0"
    by (simp add: nested_example_def)
  have tracked: "length (m_tracked nested_example (gMax - 0)) = 1"
    by (simp add: nested_example_def gMax_def)
  have counts: "m_counts nested_example 2 = 1"
    by (simp add: nested_example_def)
  have unguarded: "length (m_tracked (snd (do_collect_generation pick_first 0
                     (nested_example\<lparr>m_recur := 0\<rparr>))) (gMax - 0)) = 0"
    by (simp add: unguarded_collection_example)
  show ?thesis
    using nested_collection_guard [of nested_example pick_first 0 2, OF pos]
    using tracked counts unguarded
    by (simp add: pos unguarded_collection_example count_tracked_variables_def reap_frame)
qed

text \<open>
  The claim C8 as stated fails for \<^verbatim>\<open>collect_variables\<close>: \<^verbatim>\<open>m_pool.clear()\<close> is outside
  of the guard, so a nested call with one pooled Variable leaves none.
\<close>

theorem nested_collect_clears_pool_counterexample:
  "m_recur nested_example > 0
   \<and> count_pooled_variables nested_example = 1
   \<and> count_pooled_variables (snd (collect_variables pick_first 2 nested_example)) = 0
   \<and> snd (collect_variables pick_first 2 nested_example) \<noteq> nested_example"
proof -
  have pos: "m_recur nested_example > 0"
    by (simp add: nested_example_def)
  have pool: "m_pool nested_example = [(7, 7)]"
    by (simp add: nested_example_def)
  have "m_pool (snd (collect_variables pick_first 2 nested_example)) = []"
    by (simp add: nested_collect_variables[OF pos] reap_frame)
  then show ?thesis
    using pos pool by (auto simp: count_pooled_variables_def)
qed

section \<open>Properties of the token stream\<close>

subsection \<open>The states of a stream after a failed load\<close>




subsection \<open>Merging a sign into a numeric literal\<close>

text \<open>
  C3, as amended. Lexing \<^verbatim>\<open>1 + +2\<close> with every option off yields three tokens: the
  integer 1, the punctuator \<^verbatim>\<open>+\<close>, and the integer literal \<^verbatim>\<open>+2\<close> of length 2 that
  starts at the second \<^verbatim>\<open>+\<close>. In \<^verbatim>\<open>1 + + 2\<close> the second \<^verbatim>\<open>+\<close> is not contiguous with
  the digit and stays a punctuator: four tokens. (The stream holds the tokens reversed.)
\<close>

theorem sign_merges_when_contiguous:
  "load fp ''1 + +2'' all_off
     = Inr (True, Stor_tokens (rev
         [\<lparr>t_line = 1, t_offset = 0, t_length = 1, t_payload = S_integer_literal 1\<rparr>,
          \<lparr>t_line = 1, t_offset = 2, t_length = 1, t_payload = S_punctuator punctuator_add\<rparr>,
          \<lparr>t_line = 1, t_offset = 4, t_length = 2, t_payload = S_integer_literal 2\<rparr>]))
   \<and> load fp ''1 + + 2'' all_off
     = Inr (True, Stor_tokens (rev
         [\<lparr>t_line = 1, t_offset = 0, t_length = 1, t_payload = S_integer_literal 1\<rparr>,
          \<lparr>t_line = 1, t_offset = 2, t_length = 1, t_payload = S_punctuator punctuator_add\<rparr>,
          \<lparr>t_line = 1, t_offset = 4, t_length = 1, t_payload = S_punctuator punctuator_add\<rparr>,
          \<lparr>t_line = 1, t_offset = 6, t_length = 1, t_payload = S_integer_literal 2\<rparr>]))"
  by (simp add: lex_eval)

text \<open>The claim C3 as stated fails: the input \<^verbatim>\<open>1 + + 2\<close> yields four tokens.\<close>

theorem sign_not_merged_counterexample:
  "load range_fp ''1 + + 2'' all_off
     = Inr (True, Stor_tokens (rev
         [\<lparr>t_line = 1, t_offset = 0, t_length = 1, t_payload = S_integer_literal 1\<rparr>,
          \<lparr>t_line = 1, t_offset = 2, t_length = 1, t_payload = S_punctuator punctuator_add\<rparr>,
          \<lparr>t_line = 1, t_offset = 4, t_length = 1, t_payload = S_punctuator punctuator_add\<rparr>,
          \<lparr>t_line = 1, t_offset = 6, t_length = 1, t_payload = S_integer_literal 2\<rparr>]))"
  by (simp add: lex_eval)

subsection \<open>The shebang line\<close>

lemma read_lines_reader:
  "read_lines fp options seq bcomm (rd\<lparr>m_str := x, m_offset := y\<rparr>) cbuf
   = read_lines fp options seq bcomm rd cbuf"
  by (subst (1 2) read_lines.simps) (simp add: advance_def)

lemma takeWhile_line: "CHR 0x0A \<notin> set s \<Longrightarrow> takeWhile (\<lambda>c. c \<noteq> CHR 0x0A) (s @ CHR 0x0A # rest) = s"
  by (induction s) auto

lemma dropWhile_line: "CHR 0x0A \<notin> set s \<Longrightarrow> dropWhile (\<lambda>c. c \<noteq> CHR 0x0A) (s @ CHR 0x0A # rest) = CHR 0x0A # rest"
  by (induction s) auto

lemma takeWhile_last_line: "CHR 0x0A \<notin> set s \<Longrightarrow> takeWhile (\<lambda>c. c \<noteq> CHR 0x0A) s = s"
  by (induction s) auto

lemma dropWhile_last_line: "CHR 0x0A \<notin> set s \<Longrightarrow> dropWhile (\<lambda>c. c \<noteq> CHR 0x0A) s = []"
  by (induction s) auto

lemma shebang_first_line:
  assumes "CHR 0x0A \<notin> set l" and "2 \<le> length l" and "take 2 l = ''#!''"
  shows "read_lines fp options [] Tack Line_Reader (l @ CHR 0x0A # rest)
         = read_lines fp options [] Tack (Line_Reader\<lparr>m_line := 1\<rparr>) rest"
proof -
  define rd1 where "rd1 = \<lparr>m_str = l, m_line = 1, m_offset = 0\<rparr>"
  have a: "advance (l @ CHR 0x0A # rest) Line_Reader = (True, rest, rd1)"
    by (simp add: advance_def Line_Reader_def rd1_def
          takeWhile_line[OF assms(1)] dropWhile_line[OF assms(1)])
  have p: "process_line fp options [] Tack rd1 = Inr ([], Tack, rd1)"
    using assms(2,3) by (simp add: process_line_def is_shebang_def size_avail_def data_avail_def rd1_def)
  have "read_lines fp options [] Tack Line_Reader (l @ CHR 0x0A # rest)
        = read_lines fp options [] Tack rd1 rest"
    by (subst read_lines.simps) (simp add: a p)
  also have "rd1 = (Line_Reader\<lparr>m_line := 1\<rparr>)\<lparr>m_str := l, m_offset := 0\<rparr>"
    by (simp add: Line_Reader_def rd1_def)
  finally show ?thesis by (simp only: read_lines_reader)
qed

lemma shebang_only_line:
  assumes "CHR 0x0A \<notin> set l" and "2 \<le> length l" and "take 2 l = ''#!''"
  shows "read_lines fp options [] Tack Line_Reader l = Inr ([], Tack)"
proof -
  define rd1 where "rd1 = \<lparr>m_str = l, m_line = 1, m_offset = 0\<rparr>"
  have ne: "l \<noteq> []" using assms(2) by auto
  have a: "advance l Line_Reader = (True, [], rd1)"
    using ne
    by (simp add: advance_def Line_Reader_def rd1_def
          takeWhile_last_line[OF assms(1)] dropWhile_last_line[OF assms(1)])
  have p: "process_line fp options [] Tack rd1 = Inr ([], Tack, rd1)"
    using assms(2,3) by (simp add: process_line_def is_shebang_def size_avail_def data_avail_def rd1_def)
  have "read_lines fp options [] Tack Line_Reader l = read_lines fp options [] Tack rd1 []"
    by (subst read_lines.simps) (simp add: a p)
  also have "\<dots> = Inr ([], Tack)"
    by (subst read_lines.simps) (simp add: advance_def)
  finally show ?thesis .
qed

text \<open>
  C9. A first line that begins with \<^verbatim>\<open>#!\<close> is discarded before it is validated: whatever
  bytes \<open>s\<close> follow the \<^verbatim>\<open>#!\<close> on that line, invalid UTF-8 and zero bytes included,
  loading the input gives what loading it with the bare line \<^verbatim>\<open>#!\<close> gives, and an input
  that is only such a line loads to the empty token sequence.
\<close>

theorem shebang_line_not_validated:
  "CHR 0x0A \<notin> set s \<Longrightarrow>
     load fp (''#!'' @ s @ CHR 0x0A # rest) options = load fp (''#!'' @ CHR 0x0A # rest) options
     \<and> load fp (''#!'' @ s) options = Inr (True, Stor_tokens [])"
proof -
  assume s: "CHR 0x0A \<notin> set s"
  have l: "CHR 0x0A \<notin> set (''#!'' @ s)" "2 \<le> length (''#!'' @ s)" "take 2 (''#!'' @ s) = ''#!''"
    using s by simp_all
  have l0: "CHR 0x0A \<notin> set ''#!''" "2 \<le> length ''#!''" "take 2 ''#!'' = ''#!''"
    by simp_all
  have "read_lines fp options [] Tack Line_Reader ((''#!'' @ s) @ CHR 0x0A # rest)
        = read_lines fp options [] Tack Line_Reader (''#!'' @ CHR 0x0A # rest)"
    unfolding shebang_first_line[OF l] shebang_first_line[OF l0] by (rule refl)
  then have 1: "load fp (''#!'' @ s @ CHR 0x0A # rest) options = load fp (''#!'' @ CHR 0x0A # rest) options"
    by (simp add: load_def)
  have 2: "load fp (''#!'' @ s) options = Inr (True, Stor_tokens [])"
    unfolding load_def shebang_only_line[OF l] by (simp add: Tack_def tack_bool_def)
  from 1 2 show ?thesis by simp
qed

theorem shebang_line_not_validated_witness:
  "CHR 0x0A \<notin> set [CHR 0xFF, CHR 0x00]
   \<and> load range_fp ([CHR 0xFF, CHR 0x00] @ CHR 0x0A # ''x'') all_off
       = Inr (False, Stor_error (Parser_Error 1 0 1 code_utf8_sequence_invalid))
   \<and> load range_fp (''#!'' @ [CHR 0xFF, CHR 0x00] @ CHR 0x0A # ''x'') all_off
       = Inr (True, Stor_tokens
           [\<lparr>t_line = 2, t_offset = 0, t_length = 1, t_payload = S_identifier ''x''\<rparr>])
   \<and> load range_fp (''#!'' @ [CHR 0xFF, CHR 0x00]) all_off = Inr (True, Stor_tokens [])"
proof -
  have h: "CHR 0x0A \<notin> set [CHR 0xFF, CHR 0x00]" by simp
  have e: "load range_fp (''#!'' @ CHR 0x0A # ''x'') all_off
       = Inr (True, Stor_tokens
           [\<lparr>t_line = 2, t_offset = 0, t_length = 1, t_payload = S_identifier ''x''\<rparr>])"
    by (simp add: lex_eval)
  have b: "load range_fp ([CHR 0xFF, CHR 0x00] @ CHR 0x0A # ''x'') all_off
       = Inr (False, Stor_error (Parser_Error 1 0 1 code_utf8_sequence_invalid))"
    by (simp add: lex_eval)
  from shebang_line_not_validated [OF h, of range_fp "''x''" all_off] e b h
  show ?thesis by simp
qed

subsection \<open>The range of integer literals\<close>




















end
